theory Spec2Isabelle
  imports Complex_Main
begin

section \<open>Module constants (main.py, lines 16-29)\<close>

definition DATABASE_FILE :: string where
  "DATABASE_FILE = ''tripdata.db''"

definition TABLE_NAME :: string where
  "TABLE_NAME = ''trips''"

definition VALID_SORT_COLUMNS :: "string list" where
  "VALID_SORT_COLUMNS =
     [''pickup_datetime'', ''trip_miles'', ''trip_duration_minutes'', ''PULocationID'', ''DOLocationID'']"

section \<open>Python values: exceptions, strings, true division\<close>

text \<open>
  Every exception the program or the libraries under it can raise on the modelled paths
  is a value. \<open>HTTPException\<close> carries the status code and the \<open>detail\<close> text.
\<close>

datatype py_exception =
    HTTPException nat string
  | ValueError string
  | OverflowError string
  | ZeroDivisionError
  | TypeError
  | OperationalError string
  | ProgrammingError string
  | HTTPError string

text \<open>\<open>sep.join(xs)\<close>.\<close>

fun join :: "string \<Rightarrow> string list \<Rightarrow> string" where
  "join sep [] = []"
| "join sep [x] = x"
| "join sep (x # y # ys) = x @ sep @ join sep (y # ys)"

text \<open>
  \<open>str.lower()\<close> and \<open>str.upper()\<close> on the ASCII letters; every other character is
  left as it is. (No character outside ASCII lowercases to one of the letters of
  \<open>asc\<close> and \<open>desc\<close>, so the membership test of line 83 is the same on full Unicode.)
\<close>

definition lower_char :: "char \<Rightarrow> char" where
  "lower_char c =
     (case map_of (zip ''ABCDEFGHIJKLMNOPQRSTUVWXYZ'' ''abcdefghijklmnopqrstuvwxyz'') c of
        Some l \<Rightarrow> l | None \<Rightarrow> c)"

definition upper_char :: "char \<Rightarrow> char" where
  "upper_char c =
     (case map_of (zip ''abcdefghijklmnopqrstuvwxyz'' ''ABCDEFGHIJKLMNOPQRSTUVWXYZ'') c of
        Some u \<Rightarrow> u | None \<Rightarrow> c)"

definition lower :: "string \<Rightarrow> string" where
  "lower s = map lower_char s"

definition upper :: "string \<Rightarrow> string" where
  "upper s = map upper_char s"

text \<open>
  \<open>a / b\<close> on two Python ints is the IEEE binary64 number nearest to the exact quotient
  (ties to even), \<open>ZeroDivisionError\<close> for \<open>b = 0\<close> and \<open>OverflowError\<close> when the
  rounded quotient is beyond the largest double. A double is represented by the rational
  it denotes.

  \<open>round_half_even n d\<close> is \<open>n / d\<close> rounded to the nearest integer, ties to even
  (\<open>0 \<le> n\<close>, \<open>0 < d\<close>). \<open>floor_log2 n d\<close> is the \<open>e\<close> with
  \<open>2^e \<le> n / d < 2^(e+1)\<close> (\<open>0 < n\<close>, \<open>0 < d\<close>).
\<close>

definition round_half_even :: "int \<Rightarrow> int \<Rightarrow> int" where
  "round_half_even n d =
     (let q = n div d; r = n mod d
      in if 2 * r < d then q else if d < 2 * r then q + 1 else if even q then q else q + 1)"

function log2_up :: "int \<Rightarrow> int \<Rightarrow> nat" where
  "log2_up n d = (if 0 < d \<and> 2 * d \<le> n then Suc (log2_up n (2 * d)) else 0)"
  by pat_completeness auto
termination
  by (relation "measure (\<lambda>(n, d). nat (n - d))") auto

function log2_down :: "int \<Rightarrow> int \<Rightarrow> nat" where
  "log2_down n d = (if 0 < n \<and> n < d then Suc (log2_down (2 * n) d) else 0)"
  by pat_completeness auto
termination
  by (relation "measure (\<lambda>(n, d). nat (d - n))") auto

definition floor_log2 :: "int \<Rightarrow> int \<Rightarrow> int" where
  "floor_log2 n d = (if d \<le> n then int (log2_up n d) else - int (log2_down n d))"

definition truediv :: "int \<Rightarrow> int \<Rightarrow> py_exception + rat" where
  "truediv a b =
     (if b = 0 then Inl ZeroDivisionError
      else if a = 0 then Inr 0
      else
        let n = \<bar>a\<bar>; d = \<bar>b\<bar>;
            e = max (floor_log2 n d) (- 1022);
            x = (if e \<le> 52
                 then of_int (round_half_even (n * 2 ^ nat (52 - e)) d) / 2 ^ nat (52 - e)
                 else of_int (round_half_even n (d * 2 ^ nat (e - 52))) * 2 ^ nat (e - 52))
        in if 2 ^ 1024 \<le> x
           then Inl (OverflowError ''integer division result too large for a float'')
           else Inr (of_int (sgn a * sgn b) * x))"

text \<open>\<open>math.ceil\<close> of a (finite) double: the exact ceiling, a Python int.\<close>

definition math_ceil :: "rat \<Rightarrow> int" where
  "math_ceil x = \<lceil>x\<rceil>"

section \<open>The storage file: the \<open>trips\<close> table and the statements run against it\<close>

text \<open>
  The schema of the table is external to the program; a row carries the five columns
  the program names and the remaining columns as an association list. SQL values are
  NULL, INTEGER, REAL (the rational a double denotes) and TEXT.
\<close>

datatype sql_value = SqlNull | SqlInt int | SqlReal rat | SqlText string

record trip =
  row_pickup_datetime :: sql_value
  row_trip_miles :: sql_value
  row_trip_duration_minutes :: sql_value
  row_PULocationID :: sql_value
  row_DOLocationID :: sql_value
  row_other :: "(string \<times> sql_value) list"

text \<open>
  The file as a request finds it: \<open>None\<close> when it holds no table \<open>trips\<close>
  (\<open>aiosqlite.connect\<close> creates an empty database for a missing file), otherwise the rows
  in the engine's natural order.
\<close>

type_synonym database = "trip list option"

text \<open>What the handler does to the storage, in order.\<close>

datatype db_event = Connect string | Execute string "int list"

text \<open>
  The statements the handler can send. The engine is given the SQL text, as in the
  source; \<open>sqlite_prepare\<close> recognises the text of these statements and refuses any
  other text as a syntax error.
\<close>

datatype statement =
    CountStar bool
  | SelectStar bool "(string \<times> bool) option"

definition where_text :: "bool \<Rightarrow> string" where
  "where_text w = (if w then '' WHERE PULocationID = ?'' else [])"

fun sql_text :: "statement \<Rightarrow> string" where
  "sql_text (CountStar w) = ''SELECT COUNT(*) as total FROM trips'' @ where_text w"
| "sql_text (SelectStar w None) =
     ''SELECT * FROM trips'' @ where_text w @ '' LIMIT ? OFFSET ?''"
| "sql_text (SelectStar w (Some (c, desc))) =
     ''SELECT * FROM trips'' @ where_text w @ '' ORDER BY '' @ c
       @ (if desc then '' DESC'' else '' ASC'') @ '' LIMIT ? OFFSET ?''"

definition statements :: "statement list" where
  "statements =
     [CountStar False, CountStar True]
     @ concat (map (\<lambda>w. SelectStar w None
                      # concat (map (\<lambda>c. [SelectStar w (Some (c, False)), SelectStar w (Some (c, True))])
                                 VALID_SORT_COLUMNS))
                 [False, True])"

definition sqlite_prepare :: "string \<Rightarrow> statement option" where
  "sqlite_prepare q = find (\<lambda>s. sql_text s = q) statements"

text \<open>The number of \<open>?\<close> placeholders of a statement.\<close>

fun placeholders :: "statement \<Rightarrow> nat" where
  "placeholders (CountStar w) = (if w then 1 else 0)"
| "placeholders (SelectStar w ob) = (if w then 3 else 2)"

text \<open>A Python int is bound as a 64-bit SQLite INTEGER; a larger one raises.\<close>

definition fits_int64 :: "int \<Rightarrow> bool" where
  "fits_int64 v \<longleftrightarrow> - (2 ^ 63) \<le> v \<and> v \<le> 2 ^ 63 - 1"

text \<open>Comparison of SQL values: \<open>=\<close> in a WHERE clause, and the order of ORDER BY.\<close>

fun sql_numeric :: "sql_value \<Rightarrow> rat option" where
  "sql_numeric (SqlInt i) = Some (of_int i)"
| "sql_numeric (SqlReal r) = Some r"
| "sql_numeric v = None"

definition sql_equals_int :: "sql_value \<Rightarrow> int \<Rightarrow> bool" where
  "sql_equals_int v i = (sql_numeric v = Some (of_int i))"

fun text_le :: "string \<Rightarrow> string \<Rightarrow> bool" where
  "text_le [] ys = True"
| "text_le (x # xs) [] = False"
| "text_le (x # xs) (y # ys) =
     ((of_char x :: nat) < of_char y \<or> (x = y \<and> text_le xs ys))"

fun sql_le :: "sql_value \<Rightarrow> sql_value \<Rightarrow> bool" where
  "sql_le SqlNull v = True"
| "sql_le v SqlNull = False"
| "sql_le (SqlText s) (SqlText t) = text_le s t"
| "sql_le (SqlText s) v = False"
| "sql_le v (SqlText t) = True"
| "sql_le u v = (the (sql_numeric u) \<le> the (sql_numeric v))"

definition column :: "string \<Rightarrow> trip \<Rightarrow> sql_value" where
  "column c r =
     (if c = ''pickup_datetime'' then row_pickup_datetime r
      else if c = ''trip_miles'' then row_trip_miles r
      else if c = ''trip_duration_minutes'' then row_trip_duration_minutes r
      else if c = ''PULocationID'' then row_PULocationID r
      else if c = ''DOLocationID'' then row_DOLocationID r
      else case map_of (row_other r) c of Some v \<Rightarrow> v | None \<Rightarrow> SqlNull)"

fun insert_row :: "(trip \<Rightarrow> trip \<Rightarrow> bool) \<Rightarrow> trip \<Rightarrow> trip list \<Rightarrow> trip list" where
  "insert_row le r [] = [r]"
| "insert_row le r (x # xs) = (if le r x then r # x # xs else x # insert_row le r xs)"

definition order_rows :: "(string \<times> bool) option \<Rightarrow> trip list \<Rightarrow> trip list" where
  "order_rows ob rs =
     (case ob of
        None \<Rightarrow> rs
      | Some (c, desc) \<Rightarrow>
          foldr (insert_row (\<lambda>a b. if desc then sql_le (column c b) (column c a)
                                    else sql_le (column c a) (column c b))) rs [])"

text \<open>\<open>LIMIT l OFFSET o\<close>: a negative limit is no limit, a negative offset is 0.\<close>

definition limit_offset :: "int \<Rightarrow> int \<Rightarrow> 'a list \<Rightarrow> 'a list" where
  "limit_offset l off rs =
     (let rest = drop (nat off) rs in if l < 0 then rest else take (nat l) rest)"

datatype cursor = CountRow int | Rows "trip list"

definition matching :: "bool \<Rightarrow> int list \<Rightarrow> trip list \<Rightarrow> trip list" where
  "matching w vs rs = (if w then filter (\<lambda>r. sql_equals_int (row_PULocationID r) (hd vs)) rs else rs)"

text \<open>
  \<open>db.execute(sql, parameters)\<close>: prepare the text, check the number of parameters, bind
  them, run the statement.
\<close>

definition execute :: "database \<Rightarrow> string \<Rightarrow> int list \<Rightarrow> py_exception + cursor" where
  "execute db q vs =
     (case sqlite_prepare q of
        None \<Rightarrow> Inl (OperationalError ''syntax error'')
      | Some s \<Rightarrow>
         (case db of
            None \<Rightarrow> Inl (OperationalError ''no such table: trips'')
          | Some rs \<Rightarrow>
              if length vs \<noteq> placeholders s
                then Inl (ProgrammingError ''Incorrect number of bindings supplied.'')
              else if \<not> list_all fits_int64 vs
                then Inl (OverflowError ''Python int too large to convert to SQLite INTEGER'')
              else
                (case s of
                   CountStar w \<Rightarrow> Inr (CountRow (int (length (matching w vs rs))))
                 | SelectStar w ob \<Rightarrow>
                     Inr (Rows (limit_offset (vs ! (length vs - 2)) (vs ! (length vs - 1))
                                  (order_rows ob (matching w vs rs)))))))"

text \<open>
  \<open>(await cursor.fetchone())[0]\<close> and \<open>await cursor.fetchall()\<close>. The cursor of a count
  statement holds one number and no trip; the cursor of a data statement holds trips.
\<close>

fun fetchone_first :: "cursor \<Rightarrow> py_exception + int" where
  "fetchone_first (CountRow n) = Inr n"
| "fetchone_first (Rows rs) = Inl TypeError"

fun fetchall :: "cursor \<Rightarrow> trip list" where
  "fetchall (CountRow n) = []"
| "fetchall (Rows rs) = rs"

section \<open>The handler body: \<open>get_trips\<close> (main.py, lines 64-115)\<close>

record metadata =
  meta_total_records :: int
  meta_total_pages :: int
  meta_current_page :: int
  meta_limit :: int

record page_response =
  resp_metadata :: metadata
  resp_data :: "trip list"

text \<open>
  The result of the body and the storage events it caused. The body is given the
  parameters FastAPI resolved: \<open>page\<close>, \<open>limit\<close>, \<open>PULocationID\<close> (\<open>None\<close> when not
  given), \<open>sort_by\<close> (\<open>None\<close> when not given) and \<open>order\<close>.
\<close>

definition get_trips ::
  "database \<Rightarrow> int \<Rightarrow> int \<Rightarrow> int option \<Rightarrow> string option \<Rightarrow> string
     \<Rightarrow> (py_exception + page_response) \<times> db_event list" where
  "get_trips db page limit PULocationID sort_by order =
    (let offset = (page - 1) * limit;
         base_query0 = ''SELECT * FROM '' @ TABLE_NAME;
         conditions = (case PULocationID of None \<Rightarrow> [] | Some v \<Rightarrow> [''PULocationID = ?'']);
         values = (case PULocationID of None \<Rightarrow> [] | Some v \<Rightarrow> [v]);
         base_query1 = (if conditions \<noteq> []
                        then base_query0 @ '' WHERE '' @ join '' AND '' conditions
                        else base_query0)
     in
       if sort_by \<noteq> None \<and> the sort_by \<notin> set VALID_SORT_COLUMNS
         then (Inl (HTTPException 400
                 ''Invalid sort_by column. Valid options are: {VALID_SORT_COLUMNS}''), [])
       else if sort_by \<noteq> None \<and> lower order \<notin> set [''asc'', ''desc'']
         then (Inl (HTTPException 400 (''Invalid order, must be 'asc' or 'desc'' @ [CHR 0x27])), [])
       else
        (let base_query = (if sort_by \<noteq> None
                           then base_query1 @ '' ORDER BY '' @ the sort_by @ '' '' @ upper order
                           else base_query1);
             pagination_query = ''LIMIT ? OFFSET ?'';
             opened = [Connect DATABASE_FILE];
             count_query0 = ''SELECT COUNT(*) as total FROM '' @ TABLE_NAME;
             count_query = (if conditions \<noteq> []
                            then count_query0 @ '' WHERE '' @ join '' AND '' conditions
                            else count_query0);
             counted = opened @ [Execute count_query values]
         in
           case execute db count_query values of
             Inl e \<Rightarrow> (Inl e, counted)
           | Inr total_cursor \<Rightarrow>
              (case fetchone_first total_cursor of
                 Inl e \<Rightarrow> (Inl e, counted)
               | Inr total_records \<Rightarrow>
                  (case truediv total_records limit of
                     Inl e \<Rightarrow> (Inl e, counted)
                   | Inr ratio \<Rightarrow>
                      (let total_pages = math_ceil ratio;
                           final_query = base_query @ '' '' @ pagination_query;
                           final_values = values @ [limit, offset];
                           fetched = counted @ [Execute final_query final_values]
                       in
                         case execute db final_query final_values of
                           Inl e \<Rightarrow> (Inl e, fetched)
                         | Inr data_cursor \<Rightarrow>
                             (Inr \<lparr> resp_metadata =
                                      \<lparr> meta_total_records = total_records,
                                        meta_total_pages = total_pages,
                                        meta_current_page = page,
                                        meta_limit = limit \<rparr>,
                                    resp_data = fetchall data_cursor \<rparr>,
                              fetched))))))"

section \<open>Parameter validation by the framework (main.py, lines 57-61)\<close>

text \<open>
  FastAPI resolves the declared query parameters before it calls the endpoint function.
  A parameter declared \<open>int\<close> arrives absent, as text that denotes an integer, or as text
  that does not; a parameter declared \<open>str\<close> arrives absent or as text.
\<close>

datatype int_param = Absent | IntText int | NotInt string

record request =
  client_host :: "string option"
  q_page :: int_param
  q_limit :: int_param
  q_PULocationID :: int_param
  q_sort_by :: "string option"
  q_order :: "string option"

text \<open>
  \<open>Query(default, ge=.., le=..)\<close> on an \<open>int\<close> parameter: the default when the parameter
  is absent, otherwise the integer if it is within the bounds; the name of the parameter
  is reported otherwise. The integer is a Python int: without \<open>le\<close> there is no upper
  bound on it.
\<close>

definition Query_int ::
  "string \<Rightarrow> int option \<Rightarrow> int option \<Rightarrow> int option \<Rightarrow> int_param \<Rightarrow> string + int option" where
  "Query_int name dflt ge le raw =
     (case raw of
        Absent \<Rightarrow> Inr dflt
      | NotInt s \<Rightarrow> Inl name
      | IntText v \<Rightarrow>
          if (case ge of Some g \<Rightarrow> v < g | None \<Rightarrow> False)
             \<or> (case le of Some l \<Rightarrow> l < v | None \<Rightarrow> False)
          then Inl name else Inr (Some v))"

text \<open>
  The regular expressions the declarations need: literals and alternation. A
  \<open>pattern\<close> anchored by \<open>^\<close> and \<open>$\<close> has to match the whole value.
\<close>

datatype regex = Lit string | Alt regex regex

fun full_match :: "regex \<Rightarrow> string \<Rightarrow> bool" where
  "full_match (Lit l) s = (s = l)"
| "full_match (Alt r1 r2) s = (full_match r1 s \<or> full_match r2 s)"

definition Query_str ::
  "string \<Rightarrow> string option \<Rightarrow> regex option \<Rightarrow> string option \<Rightarrow> string + string option" where
  "Query_str name dflt pattern raw =
     (case raw of
        None \<Rightarrow> Inr dflt
      | Some s \<Rightarrow>
          (case pattern of
             None \<Rightarrow> Inr (Some s)
           | Some r \<Rightarrow> if full_match r s then Inr (Some s) else Inl name))"

text \<open>The pattern \<open>^(asc|desc)$\<close> of line 61.\<close>

definition order_pattern :: regex where
  "order_pattern = Alt (Lit ''asc'') (Lit ''desc'')"

record params =
  p_page :: int
  p_limit :: int
  p_PULocationID :: "int option"
  p_sort_by :: "string option"
  p_order :: string

fun failures :: "(string + 'a) \<Rightarrow> string list" where
  "failures (Inl name) = [name]"
| "failures (Inr v) = []"

text \<open>
  The five declarations of the signature. All failures are collected; with none, the
  endpoint function is called with the resolved values.
\<close>

definition resolve_params :: "request \<Rightarrow> string list + params" where
  "resolve_params req =
     (let page = Query_int ''page'' (Some 1) (Some 1) None (q_page req);
          limit = Query_int ''limit'' (Some 1000) (Some 1) (Some 10000) (q_limit req);
          PULocationID = Query_int ''PULocationID'' None (Some 1) None (q_PULocationID req);
          sort_by = Query_str ''sort_by'' None None (q_sort_by req);
          order = Query_str ''order'' (Some ''asc'') (Some order_pattern) (q_order req);
          errors = failures page @ failures limit @ failures PULocationID
                   @ failures sort_by @ failures order
      in if errors \<noteq> [] then Inl errors
         else Inr \<lparr> p_page = the (projr page), p_limit = the (projr limit),
                    p_PULocationID = projr PULocationID, p_sort_by = projr sort_by,
                    p_order = the (projr order) \<rparr>)"

section \<open>The rate limiter (main.py, lines 24-26 and 53)\<close>

text \<open>
  \<open>Limiter(key_func=get_remote_address)\<close> with its default strategy and storage: a
  fixed window in memory. The storage maps a key to a counter and the time at which
  the counter expires; an expired counter counts as absent. \<open>incr\<close> adds one and starts
  the window (\<open>now + expiry\<close>) when the counter becomes 1. A hit is within the limit
  while the counter is at most the amount of the limit. Times are in seconds.
\<close>

type_synonym limiter_storage = "string \<Rightarrow> (nat \<times> rat) option"

definition get_remote_address :: "request \<Rightarrow> string" where
  "get_remote_address req =
     (case client_host req of
        None \<Rightarrow> ''127.0.0.1''
      | Some h \<Rightarrow> if h = [] then ''127.0.0.1'' else h)"

definition storage_get :: "limiter_storage \<Rightarrow> string \<Rightarrow> rat \<Rightarrow> (nat \<times> rat) option" where
  "storage_get st key now =
     (case st key of
        None \<Rightarrow> None
      | Some (c, expires) \<Rightarrow> if expires \<le> now then None else Some (c, expires))"

definition storage_incr :: "limiter_storage \<Rightarrow> string \<Rightarrow> rat \<Rightarrow> rat \<Rightarrow> nat \<times> limiter_storage" where
  "storage_incr st key expiry now =
     (case storage_get st key now of
        None \<Rightarrow> (1, st(key \<mapsto> (1, now + expiry)))
      | Some (c, expires) \<Rightarrow> (c + 1, st(key \<mapsto> (c + 1, expires))))"

text \<open>The limit \<open>100/minute\<close> of line 53.\<close>

definition limit_amount :: nat where
  "limit_amount = 100"

definition limit_expiry :: rat where
  "limit_expiry = 60"

definition hit :: "limiter_storage \<Rightarrow> string \<Rightarrow> rat \<Rightarrow> bool \<times> limiter_storage" where
  "hit st key now =
     (let (c, st') = storage_incr st key limit_expiry now in (c \<le> limit_amount, st'))"

section \<open>The endpoint \<open>GET /trips\<close> (main.py, lines 52-54)\<close>

datatype body =
    PageBody page_response
  | DetailBody string
  | ValidationBody "string list"
  | RateLimitBody string
  | InternalServerError

datatype http_response = Response (status_code: nat) (content: body)

record app_state =
  limiter :: limiter_storage
  db_log :: "db_event list"

text \<open>
  \<open>@app.get\<close> is applied to the function \<open>@limiter.limit\<close> returns: the framework
  resolves the parameters (422 on a failure), then calls the limiter's wrapper, which
  counts the hit (429 when over the limit) and only then calls the body. An
  \<open>HTTPException\<close> of the body is answered with its status and detail, any other
  exception with 500.
\<close>

definition serve :: "database \<Rightarrow> rat \<Rightarrow> app_state \<Rightarrow> request \<Rightarrow> http_response \<times> app_state" where
  "serve db now app req =
     (case resolve_params req of
        Inl errors \<Rightarrow> (Response 422 (ValidationBody errors), app)
      | Inr ps \<Rightarrow>
          (let (allowed, st') = hit (limiter app) (get_remote_address req) now;
               app' = app \<lparr> limiter := st' \<rparr>
           in if \<not> allowed
              then (Response 429 (RateLimitBody ''Rate limit exceeded: 100 per 1 minute''), app')
              else
                (let (result, events) =
                       get_trips db (p_page ps) (p_limit ps) (p_PULocationID ps)
                         (p_sort_by ps) (p_order ps);
                     app'' = app' \<lparr> db_log := db_log app' @ events \<rparr>
                 in case result of
                      Inr r \<Rightarrow> (Response 200 (PageBody r), app'')
                    | Inl e \<Rightarrow>
                        (case e of
                           HTTPException code detail \<Rightarrow> (Response code (DetailBody detail), app'')
                         | _ \<Rightarrow> (Response 500 InternalServerError, app'')))))"

section \<open>Process start (main.py, lines 15-49)\<close>

type_synonym environ = "string \<Rightarrow> string option"

type_synonym files = "string \<Rightarrow> string option"

text \<open>
  The module body up to line 21: \<open>os.getenv\<close> gives \<open>None\<close> for an unset variable, and
  \<open>not\<close> is true of \<open>None\<close> and of the empty string.
\<close>

definition import_main :: "environ \<Rightarrow> py_exception + string" where
  "import_main env =
     (let DATABASE_URL_FROM_CLOUD = env ''DATABASE_URL''
      in if DATABASE_URL_FROM_CLOUD = None \<or> DATABASE_URL_FROM_CLOUD = Some []
         then Inl (ValueError ''DATABASE_URL environment variable is not set.'')
         else Inr (the DATABASE_URL_FROM_CLOUD))"

text \<open>
  What the streaming GET of line 36 meets: the whole body in chunks, a status that
  \<open>raise_for_status\<close> refuses, no connection, or a stream that breaks after some chunks.
\<close>

datatype download = Streamed "string list" | StatusRefused nat | ConnectFailed | StreamBroken "string list"

definition download_database_if_not_exists ::
  "files \<Rightarrow> (string \<Rightarrow> download) \<Rightarrow> string \<Rightarrow> py_exception option \<times> files" where
  "download_database_if_not_exists fs net url =
     (if fs DATABASE_FILE \<noteq> None then (None, fs)
      else case net url of
             Streamed chunks \<Rightarrow> (None, fs(DATABASE_FILE \<mapsto> concat chunks))
           | StatusRefused code \<Rightarrow> (Some (HTTPError ''status''), fs)
           | ConnectFailed \<Rightarrow> (Some (HTTPError ''connect''), fs)
           | StreamBroken chunks \<Rightarrow> (Some (HTTPError ''stream''), fs(DATABASE_FILE \<mapsto> concat chunks)))"

datatype process = Aborted py_exception | Serving app_state

text \<open>
  Importing the module, then the startup event; only a process that passed both serves
  requests.
\<close>

definition start_process :: "environ \<Rightarrow> files \<Rightarrow> (string \<Rightarrow> download) \<Rightarrow> process \<times> files" where
  "start_process env fs net =
     (case import_main env of
        Inl e \<Rightarrow> (Aborted e, fs)
      | Inr url \<Rightarrow>
          (case download_database_if_not_exists fs net url of
             (Some e, fs') \<Rightarrow> (Aborted e, fs')
           | (None, fs') \<Rightarrow> (Serving \<lparr> limiter = Map.empty, db_log = [] \<rparr>, fs')))"

definition handle_request ::
  "database \<Rightarrow> rat \<Rightarrow> process \<Rightarrow> request \<Rightarrow> (http_response \<times> process) option" where
  "handle_request db now proc req =
     (case proc of
        Aborted e \<Rightarrow> None
      | Serving app \<Rightarrow> (case serve db now app req of (resp, app') \<Rightarrow> Some (resp, Serving app')))"

section \<open>Predicates of the specification and sample inputs\<close>

text \<open>An HTTP client error is a status in the 4xx range.\<close>

definition client_error :: "http_response \<Rightarrow> bool" where
  "client_error r \<longleftrightarrow> 400 \<le> status_code r \<and> status_code r < 500"

text \<open>\<open>mentions s w\<close>: the word \<open>w\<close> occurs in the text \<open>s\<close>.\<close>

fun starts_with :: "string \<Rightarrow> string \<Rightarrow> bool" where
  "starts_with [] s = True"
| "starts_with (p # ps) [] = False"
| "starts_with (p # ps) (c # cs) = (p = c \<and> starts_with ps cs)"

fun mentions :: "string \<Rightarrow> string \<Rightarrow> bool" where
  "mentions [] w = (w = [])"
| "mentions (c # cs) w = (starts_with w (c # cs) \<or> mentions cs w)"

text \<open>The parameters the framework refuses in a request.\<close>

definition validation_errors :: "request \<Rightarrow> string list" where
  "validation_errors req = (case resolve_params req of Inl errors \<Rightarrow> errors | Inr ps \<Rightarrow> [])"

definition fresh_app :: app_state where
  "fresh_app = \<lparr> limiter = Map.empty, db_log = [] \<rparr>"

definition plain_request :: request where
  "plain_request =
     \<lparr> client_host = Some ''10.0.0.1'', q_page = Absent, q_limit = Absent,
       q_PULocationID = Absent, q_sort_by = None, q_order = None \<rparr>"

text \<open>The detail of the 400 answer of line 84.\<close>

definition order_detail :: string where
  "order_detail = ''Invalid order, must be 'asc' or 'desc'' @ [CHR 0x27]"

section \<open>The two halves of the handler body\<close>

text \<open>
  For the proofs, the body is read in two halves: the query text and parameters built
  in lines 64-85, and the storage work of lines 88-115. \<open>get_trips_phases\<close> below shows
  that \<open>get_trips\<close> is the checks of lines 80-84 followed by \<open>storage_phase\<close>.
\<close>

definition storage_phase ::
  "database \<Rightarrow> int \<Rightarrow> int \<Rightarrow> string list \<Rightarrow> int list \<Rightarrow> string
     \<Rightarrow> (py_exception + page_response) \<times> db_event list" where
  "storage_phase db page limit conditions values base_query =
        (let offset = (page - 1) * limit;
             pagination_query = ''LIMIT ? OFFSET ?'';
             opened = [Connect DATABASE_FILE];
             count_query0 = ''SELECT COUNT(*) as total FROM '' @ TABLE_NAME;
             count_query = (if conditions \<noteq> []
                            then count_query0 @ '' WHERE '' @ join '' AND '' conditions
                            else count_query0);
             counted = opened @ [Execute count_query values]
         in
           case execute db count_query values of
             Inl e \<Rightarrow> (Inl e, counted)
           | Inr total_cursor \<Rightarrow>
              (case fetchone_first total_cursor of
                 Inl e \<Rightarrow> (Inl e, counted)
               | Inr total_records \<Rightarrow>
                  (case truediv total_records limit of
                     Inl e \<Rightarrow> (Inl e, counted)
                   | Inr ratio \<Rightarrow>
                      (let total_pages = math_ceil ratio;
                           final_query = base_query @ '' '' @ pagination_query;
                           final_values = values @ [limit, offset];
                           fetched = counted @ [Execute final_query final_values]
                       in
                         case execute db final_query final_values of
                           Inl e \<Rightarrow> (Inl e, fetched)
                         | Inr data_cursor \<Rightarrow>
                             (Inr \<lparr> resp_metadata =
                                      \<lparr> meta_total_records = total_records,
                                        meta_total_pages = total_pages,
                                        meta_current_page = page,
                                        meta_limit = limit \<rparr>,
                                    resp_data = fetchall data_cursor \<rparr>,
                              fetched)))))"

definition conditions_of :: "int option \<Rightarrow> string list" where
  "conditions_of PULocationID = (case PULocationID of None \<Rightarrow> [] | Some v \<Rightarrow> [''PULocationID = ?''])"

definition values_of :: "int option \<Rightarrow> int list" where
  "values_of PULocationID = (case PULocationID of None \<Rightarrow> [] | Some v \<Rightarrow> [v])"

definition base_query_of :: "int option \<Rightarrow> string option \<Rightarrow> string \<Rightarrow> string" where
  "base_query_of PULocationID sort_by order =
     (let base_query0 = ''SELECT * FROM '' @ TABLE_NAME;
          base_query1 = (if conditions_of PULocationID \<noteq> []
                        then base_query0 @ '' WHERE '' @ join '' AND '' (conditions_of PULocationID)
                        else base_query0)
      in if sort_by \<noteq> None
         then base_query1 @ '' ORDER BY '' @ the sort_by @ '' '' @ upper order
         else base_query1)"

section \<open>The storage engine's capacity, and what a successful request returns\<close>

text \<open>
  An SQLite file has at most 4294967294 pages of at most 65536 bytes, and every row
  of a table takes at least one byte of it.
\<close>

definition SQLITE_MAX_BYTES :: int where
  "SQLITE_MAX_BYTES = 4294967294 * 65536"

definition storable :: "database \<Rightarrow> bool" where
  "storable db = (case db of None \<Rightarrow> True | Some rows \<Rightarrow> int (length rows) \<le> SQLITE_MAX_BYTES)"

text \<open>
  The ORDER BY clause of a request, the checks of lines 80-84, the rows of the page
  asked for, and the storage events of a request that reaches the data query.
\<close>

definition order_by_of :: "string option \<Rightarrow> string \<Rightarrow> (string \<times> bool) option" where
  "order_by_of sort_by order =
     (case sort_by of None \<Rightarrow> None | Some c \<Rightarrow> Some (c, lower order = ''desc''))"

definition sort_accepted :: "string option \<Rightarrow> string \<Rightarrow> bool" where
  "sort_accepted sort_by order =
     (case sort_by of None \<Rightarrow> True
      | Some c \<Rightarrow> c \<in> set VALID_SORT_COLUMNS \<and> lower order \<in> set [''asc'', ''desc''])"

definition page_of ::
  "trip list \<Rightarrow> int \<Rightarrow> int \<Rightarrow> int option \<Rightarrow> string option \<Rightarrow> string \<Rightarrow> trip list" where
  "page_of rows page limit PULocationID sort_by order =
     limit_offset limit ((page - 1) * limit)
       (order_rows (order_by_of sort_by order)
          (matching (PULocationID \<noteq> None) (values_of PULocationID) rows))"

definition events_of :: "int \<Rightarrow> int \<Rightarrow> int option \<Rightarrow> string option \<Rightarrow> string \<Rightarrow> db_event list" where
  "events_of page limit PULocationID sort_by order =
     [Connect DATABASE_FILE,
      Execute (sql_text (CountStar (PULocationID \<noteq> None))) (values_of PULocationID),
      Execute (base_query_of PULocationID sort_by order @ '' LIMIT ? OFFSET ?'')
        (values_of PULocationID @ [limit, (page - 1) * limit])]"

text \<open>
  Sample data: a table of five trips, three of them picked up at location 138; the
  table of 2500 trips of the specification's scenario; a request for a page whose
  offset is \<open>2^63\<close>.
\<close>

definition sample_trip :: "int \<Rightarrow> trip" where
  "sample_trip n =
     \<lparr> row_pickup_datetime = SqlText ''2023-01-01 00:00:00'', row_trip_miles = SqlReal (5 / 2),
       row_trip_duration_minutes = SqlInt 12, row_PULocationID = SqlInt n,
       row_DOLocationID = SqlInt 7, row_other = [] \<rparr>"

definition sample_db :: database where
  "sample_db = Some [sample_trip 138, sample_trip 5, sample_trip 138, sample_trip 9, sample_trip 138]"

definition huge_page_request :: request where
  "huge_page_request = plain_request \<lparr> q_page := IntText 9223372036854775809, q_limit := IntText 1 \<rparr>"

definition scenario_db :: database where
  "scenario_db = Some (replicate 2500 (sample_trip 138))"

section \<open>Requests in sequence\<close>

text \<open>
  The server answers the requests in the order of their arrival, each with the time of
  its arrival, and hands the state on.
\<close>

fun serve_all :: "database \<Rightarrow> app_state \<Rightarrow> (rat \<times> request) list \<Rightarrow> http_response list \<times> app_state" where
  "serve_all db app [] = ([], app)"
| "serve_all db app ((now, req) # rest) =
     (case serve db now app req of
        (resp, app') \<Rightarrow>
          (case serve_all db app' rest of (resps, app'') \<Rightarrow> (resp # resps, app'')))"

text \<open>
  A request counts against the limit of the address \<open>a\<close> when it comes from \<open>a\<close> and
  passes the framework's validation.
\<close>

definition counted :: "string \<Rightarrow> rat \<times> request \<Rightarrow> bool" where
  "counted a x \<longleftrightarrow> get_remote_address (snd x) = a \<and> validation_errors (snd x) = []"

section \<open>The endpoint, layer by layer\<close>

lemmas endpoint_defs =
  resolve_params_def Query_int_def Query_str_def order_pattern_def validation_errors_def
  hit_def storage_incr_def storage_get_def limit_amount_def limit_expiry_def
  get_remote_address_def fresh_app_def plain_request_def

lemma serve_422:
  "resolve_params req = Inl errors \<Longrightarrow>
   serve db now app req = (Response 422 (ValidationBody errors), app)"
  by (simp add: serve_def)

lemma serve_429:
  assumes "resolve_params req = Inr ps"
    and "\<not> fst (hit (limiter app) (get_remote_address req) now)"
  shows "serve db now app req =
     (Response 429 (RateLimitBody ''Rate limit exceeded: 100 per 1 minute''),
      app \<lparr> limiter := snd (hit (limiter app) (get_remote_address req) now) \<rparr>)"
proof -
  obtain allowed st' where "hit (limiter app) (get_remote_address req) now = (allowed, st')"
    by (cases "hit (limiter app) (get_remote_address req) now")
  with assms show ?thesis by (simp add: serve_def)
qed

lemma serve_body:
  assumes "resolve_params req = Inr ps"
    and "fst (hit (limiter app) (get_remote_address req) now)"
    and "get_trips db (p_page ps) (p_limit ps) (p_PULocationID ps) (p_sort_by ps) (p_order ps)
           = (result, events)"
  shows "serve db now app req =
     ((case result of
         Inr r \<Rightarrow> Response 200 (PageBody r)
       | Inl e \<Rightarrow> (case e of HTTPException code detail \<Rightarrow> Response code (DetailBody detail)
                   | _ \<Rightarrow> Response 500 InternalServerError)),
      app \<lparr> limiter := snd (hit (limiter app) (get_remote_address req) now),
            db_log := db_log app @ events \<rparr>)"
proof -
  obtain allowed st' where "hit (limiter app) (get_remote_address req) now = (allowed, st')"
    by (cases "hit (limiter app) (get_remote_address req) now")
  with assms show ?thesis
    by (cases result; cases "projl result") (simp_all add: serve_def)
qed

lemma resolve_errors_nonempty: "resolve_params req = Inl errors \<Longrightarrow> errors \<noteq> []"
  by (auto simp: resolve_params_def Let_def split: if_splits)

lemma resolve_sort_by: "resolve_params req = Inr ps \<Longrightarrow> p_sort_by ps = q_sort_by req"
  by (auto simp: resolve_params_def Query_str_def Let_def split: if_splits option.splits)

section \<open>The sort column allow-list\<close>

lemma get_trips_bad_sort_by:
  "s \<notin> set VALID_SORT_COLUMNS \<Longrightarrow>
   get_trips db page limit PULocationID (Some s) order =
     (Inl (HTTPException 400 ''Invalid sort_by column. Valid options are: {VALID_SORT_COLUMNS}''), [])"
  by (simp add: get_trips_def Let_def)

text \<open>
  Claim C1. When \<open>sort_by\<close> is given and is not one of the five allowed columns, the
  handler body raises the HTTP 400 exception and causes no storage event: no connection,
  no count query, no data query. At the endpoint, every request with such a \<open>sort_by\<close>
  is answered with a client error and leaves the storage log as it was; the answer is the
  400 of the body whenever the framework accepts the parameters and the limiter admits
  the request.
\<close>

theorem invalid_sort_by_rejected_without_query:
  assumes "s \<notin> set VALID_SORT_COLUMNS"
  shows "get_trips db page limit PULocationID (Some s) order =
           (Inl (HTTPException 400
              ''Invalid sort_by column. Valid options are: {VALID_SORT_COLUMNS}''), [])
       \<and> (q_sort_by req = Some s \<longrightarrow>
            client_error (fst (serve db now app req))
          \<and> db_log (snd (serve db now app req)) = db_log app
          \<and> (validation_errors req = [] \<and> fst (hit (limiter app) (get_remote_address req) now) \<longrightarrow>
               fst (serve db now app req) =
                 Response 400
                   (DetailBody ''Invalid sort_by column. Valid options are: {VALID_SORT_COLUMNS}'')))"
proof -
  note body = get_trips_bad_sort_by [OF assms]
  have "client_error (fst (serve db now app req))
      \<and> db_log (snd (serve db now app req)) = db_log app
      \<and> (validation_errors req = [] \<and> fst (hit (limiter app) (get_remote_address req) now) \<longrightarrow>
               fst (serve db now app req) =
                 Response 400
                   (DetailBody ''Invalid sort_by column. Valid options are: {VALID_SORT_COLUMNS}''))"
    if sb: "q_sort_by req = Some s"
  proof (cases "resolve_params req")
    case (Inl errors)
    with resolve_errors_nonempty [OF Inl] show ?thesis
      by (simp add: serve_422 client_error_def validation_errors_def)
  next
    case (Inr ps)
    then have ps: "p_sort_by ps = Some s" using sb by (simp add: resolve_sort_by)
    show ?thesis
    proof (cases "fst (hit (limiter app) (get_remote_address req) now)")
      case False
      with Inr show ?thesis by (simp add: serve_429 client_error_def)
    next
      case True
      from serve_body [OF Inr True, of db]
        body [of db "p_page ps" "p_limit ps" "p_PULocationID ps" "p_order ps"] ps
      show ?thesis by (simp add: client_error_def)
    qed
  qed
  with body show ?thesis by blast
qed

theorem invalid_sort_by_rejected_without_query_witness:
  "''fare'' \<notin> set VALID_SORT_COLUMNS
   \<and> get_trips (Some []) 2 50 None (Some ''fare'') ''asc'' =
       (Inl (HTTPException 400
          ''Invalid sort_by column. Valid options are: {VALID_SORT_COLUMNS}''), [])
   \<and> fst (serve (Some []) 0 fresh_app (plain_request \<lparr> q_sort_by := Some ''fare'' \<rparr>)) =
       Response 400 (DetailBody ''Invalid sort_by column. Valid options are: {VALID_SORT_COLUMNS}'')
   \<and> db_log (snd (serve (Some []) 0 fresh_app (plain_request \<lparr> q_sort_by := Some ''fare'' \<rparr>))) = []"
proof -
  have h: "''fare'' \<notin> set VALID_SORT_COLUMNS"
    by (simp add: VALID_SORT_COLUMNS_def)
  have v: "validation_errors (plain_request \<lparr> q_sort_by := Some ''fare'' \<rparr>) = []"
    by (simp add: endpoint_defs)
  have a: "fst (hit (limiter fresh_app)
             (get_remote_address (plain_request \<lparr> q_sort_by := Some ''fare'' \<rparr>)) 0)"
    by (simp add: endpoint_defs)
  have l: "db_log fresh_app = []" and q: "q_sort_by (plain_request \<lparr> q_sort_by := Some ''fare'' \<rparr>) = Some ''fare''"
    by (simp_all add: endpoint_defs)
  from invalid_sort_by_rejected_without_query
         [OF h, of "Some []" 2 50 None "''asc''" "plain_request \<lparr> q_sort_by := Some ''fare'' \<rparr>" 0 fresh_app]
       h v a l q
  show ?thesis by simp
qed

text \<open>
  Claim C5, at the request \<open>GET /trips?sort_by=tip\<close>: the detail of the 400 answer is
  the text of line 82 as written, with the placeholder \<open>{VALID_SORT_COLUMNS}\<close> in it,
  and none of the five column names occurs in it.
\<close>

theorem invalid_sort_by_detail_lists_no_column:
  "fst (serve (Some []) 0 fresh_app (plain_request \<lparr> q_sort_by := Some ''tip'' \<rparr>)) =
     Response 400 (DetailBody ''Invalid sort_by column. Valid options are: {VALID_SORT_COLUMNS}'')
   \<and> list_all
       (\<lambda>c. \<not> mentions ''Invalid sort_by column. Valid options are: {VALID_SORT_COLUMNS}'' c)
       VALID_SORT_COLUMNS"
proof -
  have "fst (serve (Some []) 0 fresh_app (plain_request \<lparr> q_sort_by := Some ''tip'' \<rparr>)) =
     Response 400 (DetailBody ''Invalid sort_by column. Valid options are: {VALID_SORT_COLUMNS}'')"
    by (simp add: serve_def endpoint_defs get_trips_def VALID_SORT_COLUMNS_def Let_def)
  moreover have "list_all
       (\<lambda>c. \<not> mentions ''Invalid sort_by column. Valid options are: {VALID_SORT_COLUMNS}'' c)
       VALID_SORT_COLUMNS"
    by (simp add: VALID_SORT_COLUMNS_def)
  ultimately show ?thesis by simp
qed

section \<open>What the framework refuses\<close>

lemma validation_errors_eq:
  "validation_errors req =
     failures (Query_int ''page'' (Some 1) (Some 1) None (q_page req))
     @ failures (Query_int ''limit'' (Some 1000) (Some 1) (Some 10000) (q_limit req))
     @ failures (Query_int ''PULocationID'' None (Some 1) None (q_PULocationID req))
     @ failures (Query_str ''sort_by'' None None (q_sort_by req))
     @ failures (Query_str ''order'' (Some ''asc'') (Some order_pattern) (q_order req))"
  by (simp add: validation_errors_def resolve_params_def Let_def)

lemma failures_int_ge:
  "failures (Query_int name dflt (Some g) None raw) =
     (if (\<exists>v. raw = IntText v \<and> v < g) \<or> (\<exists>s. raw = NotInt s) then [name] else [])"
  by (cases raw) (simp_all add: Query_int_def)

lemma failures_int_ge_le:
  "failures (Query_int name dflt (Some g) (Some l) raw) =
     (if (\<exists>v. raw = IntText v \<and> (v < g \<or> l < v)) \<or> (\<exists>s. raw = NotInt s) then [name] else [])"
  by (cases raw) (simp_all add: Query_int_def)

lemma failures_str_free: "failures (Query_str name dflt None raw) = []"
  by (cases raw) (simp_all add: Query_str_def)

lemma failures_order:
  "failures (Query_str ''order'' (Some ''asc'') (Some order_pattern) raw) =
     (if \<exists>s. raw = Some s \<and> s \<noteq> ''asc'' \<and> s \<noteq> ''desc'' then [''order''] else [])"
  by (cases raw) (simp_all add: Query_str_def order_pattern_def)

lemmas failures_simps = failures_int_ge failures_int_ge_le failures_str_free failures_order

lemma page_refused:
  "''page'' \<in> set (validation_errors req)
     \<longleftrightarrow> (\<exists>v. q_page req = IntText v \<and> v < 1) \<or> (\<exists>s. q_page req = NotInt s)"
  by (simp add: validation_errors_eq failures_simps)

lemma limit_refused:
  "''limit'' \<in> set (validation_errors req)
     \<longleftrightarrow> (\<exists>v. q_limit req = IntText v \<and> (v < 1 \<or> 10000 < v)) \<or> (\<exists>s. q_limit req = NotInt s)"
  by (simp add: validation_errors_eq failures_simps)

lemma PULocationID_refused:
  "''PULocationID'' \<in> set (validation_errors req)
     \<longleftrightarrow> (\<exists>v. q_PULocationID req = IntText v \<and> v < 1) \<or> (\<exists>s. q_PULocationID req = NotInt s)"
  by (simp add: validation_errors_eq failures_simps)

lemma order_refused:
  "''order'' \<in> set (validation_errors req)
     \<longleftrightarrow> (\<exists>s. q_order req = Some s \<and> s \<noteq> ''asc'' \<and> s \<noteq> ''desc'')"
  by (simp add: validation_errors_eq failures_simps)

lemma serve_refused:
  "validation_errors req \<noteq> [] \<Longrightarrow>
   serve db now app req = (Response 422 (ValidationBody (validation_errors req)), app)"
  by (cases "resolve_params req") (simp_all add: validation_errors_def serve_422)

lemma resolve_Inr:
  assumes "resolve_params req = Inr ps"
  shows "validation_errors req = []"
    and "ps = \<lparr> p_page = the (projr (Query_int ''page'' (Some 1) (Some 1) None (q_page req))),
               p_limit = the (projr (Query_int ''limit'' (Some 1000) (Some 1) (Some 10000) (q_limit req))),
               p_PULocationID = projr (Query_int ''PULocationID'' None (Some 1) None (q_PULocationID req)),
               p_sort_by = projr (Query_str ''sort_by'' None None (q_sort_by req)),
               p_order = the (projr (Query_str ''order'' (Some ''asc'') (Some order_pattern) (q_order req))) \<rparr>"
  using assms by (simp_all add: validation_errors_def resolve_params_def Let_def split: if_splits)

lemma resolve_Inr_iff:
  "(\<exists>ps. resolve_params req = Inr ps) \<longleftrightarrow> validation_errors req = []"
  by (cases "resolve_params req") (auto simp: validation_errors_def dest: resolve_errors_nonempty)

lemma Query_int_value:
  "failures (Query_int name dflt (Some g) le raw) = [] \<Longrightarrow>
   projr (Query_int name dflt (Some g) le raw) = (case raw of IntText v \<Rightarrow> Some v | _ \<Rightarrow> dflt)
   \<and> (\<forall>v. raw = IntText v \<longrightarrow> g \<le> v \<and> (\<forall>l. le = Some l \<longrightarrow> v \<le> l))"
  by (cases raw; cases le) (auto simp: Query_int_def split: if_splits)

lemma Query_order_value:
  "failures (Query_str ''order'' (Some ''asc'') (Some order_pattern) raw) = [] \<Longrightarrow>
   projr (Query_str ''order'' (Some ''asc'') (Some order_pattern) raw)
     = Some (case raw of Some s \<Rightarrow> s | None \<Rightarrow> ''asc'')
   \<and> (case raw of Some s \<Rightarrow> s | None \<Rightarrow> ''asc'') \<in> {''asc'', ''desc''}"
  by (cases raw) (auto simp: Query_str_def order_pattern_def split: if_splits)

lemma resolved_values:
  assumes "resolve_params req = Inr ps"
  shows "p_page ps = (case q_page req of IntText v \<Rightarrow> v | _ \<Rightarrow> 1)"
    and "p_limit ps = (case q_limit req of IntText v \<Rightarrow> v | _ \<Rightarrow> 1000)"
    and "p_PULocationID ps = (case q_PULocationID req of IntText v \<Rightarrow> Some v | _ \<Rightarrow> None)"
    and "p_order ps = (case q_order req of Some s \<Rightarrow> s | None \<Rightarrow> ''asc'')"
    and "1 \<le> p_page ps" and "1 \<le> p_limit ps" and "p_limit ps \<le> 10000"
    and "\<forall>v. p_PULocationID ps = Some v \<longrightarrow> 1 \<le> v"
    and "p_order ps \<in> {''asc'', ''desc''}"
proof -
  from resolve_Inr(1) [OF assms] have
    f1: "failures (Query_int ''page'' (Some 1) (Some 1) None (q_page req)) = []" and
    f2: "failures (Query_int ''limit'' (Some 1000) (Some 1) (Some 10000) (q_limit req)) = []" and
    f3: "failures (Query_int ''PULocationID'' None (Some 1) None (q_PULocationID req)) = []" and
    f5: "failures (Query_str ''order'' (Some ''asc'') (Some order_pattern) (q_order req)) = []"
    by (simp_all add: validation_errors_eq)
  note ps = resolve_Inr(2) [OF assms]
  from Query_int_value [OF f1] show "p_page ps = (case q_page req of IntText v \<Rightarrow> v | _ \<Rightarrow> 1)"
    and "1 \<le> p_page ps"
    by (subst ps, cases "q_page req"; simp)+
  from Query_int_value [OF f2] show "p_limit ps = (case q_limit req of IntText v \<Rightarrow> v | _ \<Rightarrow> 1000)"
    and "1 \<le> p_limit ps" and "p_limit ps \<le> 10000"
    by (subst ps, cases "q_limit req"; simp)+
  from Query_int_value [OF f3]
  show "p_PULocationID ps = (case q_PULocationID req of IntText v \<Rightarrow> Some v | _ \<Rightarrow> None)"
    and "\<forall>v. p_PULocationID ps = Some v \<longrightarrow> 1 \<le> v"
    by (subst ps, cases "q_PULocationID req"; simp)+
  from Query_order_value [OF f5]
  show "p_order ps = (case q_order req of Some s \<Rightarrow> s | None \<Rightarrow> ''asc'')"
    and "p_order ps \<in> {''asc'', ''desc''}"
    by (subst ps, simp)+
qed

section \<open>The handler body in two halves\<close>

lemma get_trips_phases:
  "get_trips db page limit PULocationID sort_by order =
     (if sort_by \<noteq> None \<and> the sort_by \<notin> set VALID_SORT_COLUMNS
        then (Inl (HTTPException 400
                ''Invalid sort_by column. Valid options are: {VALID_SORT_COLUMNS}''), [])
      else if sort_by \<noteq> None \<and> lower order \<notin> set [''asc'', ''desc'']
        then (Inl (HTTPException 400 order_detail), [])
      else storage_phase db page limit (conditions_of PULocationID) (values_of PULocationID)
             (base_query_of PULocationID sort_by order))"
  unfolding get_trips_def storage_phase_def conditions_of_def values_of_def base_query_of_def
    order_detail_def Let_def
  by (rule refl)


lemma execute_not_http: "execute db q vs \<noteq> Inl (HTTPException c d)"
  by (auto simp: execute_def split: option.splits statement.splits if_splits)

lemma truediv_not_http: "truediv a b \<noteq> Inl (HTTPException c d)"
  by (simp add: truediv_def Let_def)

lemma fetchone_first_not_http: "fetchone_first cur \<noteq> Inl (HTTPException c d)"
  by (cases cur) simp_all

lemma storage_phase_Inl:
  assumes "storage_phase db page limit conditions values base_query = (Inl e, events)"
  shows "(\<exists>q vs. execute db q vs = Inl e) \<or> (\<exists>cur. fetchone_first cur = Inl e)
         \<or> (\<exists>a. truediv a limit = Inl e)"
  using assms unfolding storage_phase_def Let_def
  by (auto split: sum.splits)

lemma storage_phase_not_http:
  "fst (storage_phase db page limit conditions values base_query) \<noteq> Inl (HTTPException c d)"
proof
  assume a: "fst (storage_phase db page limit conditions values base_query) = Inl (HTTPException c d)"
  obtain events where "storage_phase db page limit conditions values base_query = (Inl (HTTPException c d), events)"
    using a by (cases "storage_phase db page limit conditions values base_query") simp
  from storage_phase_Inl [OF this] show False
    by (simp add: execute_not_http truediv_not_http fetchone_first_not_http)
qed

lemma get_trips_order_ok:
  assumes "lower order \<in> set [''asc'', ''desc'']"
  shows "fst (get_trips db page limit PULocationID sort_by order) \<noteq> Inl (HTTPException 400 order_detail)"
  using assms storage_phase_not_http
  by (simp add: get_trips_phases order_detail_def)

lemma lower_exact: "lower ''asc'' = ''asc''" "lower ''desc'' = ''desc''"
  by (simp_all add: lower_def lower_char_def)

section \<open>Bounds of the integer parameters\<close>

text \<open>
  Claim C6. The framework refuses \<open>page\<close> exactly when it is given and is below 1 or is
  not an integer, \<open>limit\<close> exactly when it is given and is outside 1..10000 or is not
  an integer, and \<open>PULocationID\<close> exactly when it is given and is below 1 or is not an
  integer. A request with a refused parameter is answered 422, a client error, and the
  application state is what it was: the limiter has not counted it and no storage event
  has happened. When nothing is refused, the body receives the given values, 1 for an
  absent \<open>page\<close>, 1000 for an absent \<open>limit\<close> and no filter for an absent
  \<open>PULocationID\<close>, all within their bounds.
\<close>

theorem parameter_bounds_enforced:
  "(''page'' \<in> set (validation_errors req)
      \<longleftrightarrow> (\<exists>v. q_page req = IntText v \<and> v < 1) \<or> (\<exists>s. q_page req = NotInt s))
   \<and> (''limit'' \<in> set (validation_errors req)
      \<longleftrightarrow> (\<exists>v. q_limit req = IntText v \<and> (v < 1 \<or> 10000 < v)) \<or> (\<exists>s. q_limit req = NotInt s))
   \<and> (''PULocationID'' \<in> set (validation_errors req)
      \<longleftrightarrow> (\<exists>v. q_PULocationID req = IntText v \<and> v < 1) \<or> (\<exists>s. q_PULocationID req = NotInt s))
   \<and> (validation_errors req \<noteq> [] \<longrightarrow>
        serve db now app req = (Response 422 (ValidationBody (validation_errors req)), app)
        \<and> client_error (fst (serve db now app req)))
   \<and> (\<forall>ps. resolve_params req = Inr ps \<longrightarrow>
        p_page ps = (case q_page req of IntText v \<Rightarrow> v | _ \<Rightarrow> 1) \<and> 1 \<le> p_page ps
        \<and> p_limit ps = (case q_limit req of IntText v \<Rightarrow> v | _ \<Rightarrow> 1000)
        \<and> 1 \<le> p_limit ps \<and> p_limit ps \<le> 10000
        \<and> p_PULocationID ps = (case q_PULocationID req of IntText v \<Rightarrow> Some v | _ \<Rightarrow> None)
        \<and> (\<forall>v. p_PULocationID ps = Some v \<longrightarrow> 1 \<le> v))"
proof -
  have "serve db now app req = (Response 422 (ValidationBody (validation_errors req)), app)
        \<and> client_error (fst (serve db now app req))" if "validation_errors req \<noteq> []"
    using serve_refused [OF that, of db now app] by (simp add: client_error_def)
  moreover have "p_page ps = (case q_page req of IntText v \<Rightarrow> v | _ \<Rightarrow> 1) \<and> 1 \<le> p_page ps
        \<and> p_limit ps = (case q_limit req of IntText v \<Rightarrow> v | _ \<Rightarrow> 1000)
        \<and> 1 \<le> p_limit ps \<and> p_limit ps \<le> 10000
        \<and> p_PULocationID ps = (case q_PULocationID req of IntText v \<Rightarrow> Some v | _ \<Rightarrow> None)
        \<and> (\<forall>v. p_PULocationID ps = Some v \<longrightarrow> 1 \<le> v)" if "resolve_params req = Inr ps" for ps
    using resolved_values [OF that] by blast
  ultimately show ?thesis
    using page_refused [of req] limit_refused [of req] PULocationID_refused [of req] by blast
qed

theorem parameter_bounds_enforced_witness:
  "serve (Some []) 0 fresh_app (plain_request \<lparr> q_limit := IntText 10001, q_PULocationID := IntText 0 \<rparr>)
     = (Response 422 (ValidationBody [''limit'', ''PULocationID'']), fresh_app)
   \<and> resolve_params plain_request =
       Inr \<lparr> p_page = 1, p_limit = 1000, p_PULocationID = None, p_sort_by = None, p_order = ''asc'' \<rparr>"
proof -
  have v: "validation_errors (plain_request \<lparr> q_limit := IntText 10001, q_PULocationID := IntText 0 \<rparr>)
             = [''limit'', ''PULocationID'']"
    by (simp add: endpoint_defs)
  have r: "resolve_params plain_request =
       Inr \<lparr> p_page = 1, p_limit = 1000, p_PULocationID = None, p_sort_by = None, p_order = ''asc'' \<rparr>"
    by (simp add: endpoint_defs)
  from parameter_bounds_enforced
         [of "plain_request \<lparr> q_limit := IntText 10001, q_PULocationID := IntText 0 \<rparr>" "Some []" 0 fresh_app]
       v r
  show ?thesis by simp
qed

section \<open>The sort order\<close>

text \<open>
  Claim C4 as stated fails: \<open>ASC\<close> lowercases to \<open>asc\<close>, and the request
  \<open>GET /trips?order=ASC\<close> is refused with 422 by the pattern of line 61.
\<close>

theorem uppercase_order_rejected:
  "lower ''ASC'' \<in> set [''asc'', ''desc'']
   \<and> serve (Some []) 0 fresh_app (plain_request \<lparr> q_order := Some ''ASC'' \<rparr>)
       = (Response 422 (ValidationBody [''order'']), fresh_app)"
  by (simp add: serve_def endpoint_defs lower_def lower_char_def)

text \<open>
  Claim C4, amended. \<open>order\<close> is refused exactly when it is given and is neither
  \<open>asc\<close> nor \<open>desc\<close>, letter for letter; the answer is then 422, a client error,
  before the limiter and the body. An \<open>order\<close> that is not refused is never the cause
  of a rejection: the answer is not the 400 of line 84.
\<close>

theorem order_accepted_iff_exact:
  "(''order'' \<in> set (validation_errors req)
      \<longleftrightarrow> (\<exists>s. q_order req = Some s \<and> s \<noteq> ''asc'' \<and> s \<noteq> ''desc''))
   \<and> (''order'' \<in> set (validation_errors req) \<longrightarrow>
        serve db now app req = (Response 422 (ValidationBody (validation_errors req)), app)
        \<and> client_error (fst (serve db now app req)))
   \<and> (''order'' \<notin> set (validation_errors req) \<longrightarrow>
        fst (serve db now app req) \<noteq> Response 400 (DetailBody order_detail))"
proof -
  have "serve db now app req = (Response 422 (ValidationBody (validation_errors req)), app)
        \<and> client_error (fst (serve db now app req))" if "''order'' \<in> set (validation_errors req)"
  proof -
    from that have "validation_errors req \<noteq> []" by auto
    from serve_refused [OF this, of db now app] show ?thesis by (simp add: client_error_def)
  qed
  moreover have "fst (serve db now app req) \<noteq> Response 400 (DetailBody order_detail)"
  proof (cases "resolve_params req")
    case (Inl errors)
    then show ?thesis by (simp add: serve_422)
  next
    case (Inr ps)
    show ?thesis
    proof (cases "fst (hit (limiter app) (get_remote_address req) now)")
      case False
      with Inr show ?thesis by (simp add: serve_429)
    next
      case True
      obtain result events where
        g: "get_trips db (p_page ps) (p_limit ps) (p_PULocationID ps) (p_sort_by ps) (p_order ps)
              = (result, events)"
        by (cases "get_trips db (p_page ps) (p_limit ps) (p_PULocationID ps) (p_sort_by ps) (p_order ps)")
      from resolved_values(9) [OF Inr] have "lower (p_order ps) \<in> set [''asc'', ''desc'']"
        by (auto simp: lower_exact)
      from get_trips_order_ok [OF this, of db "p_page ps" "p_limit ps" "p_PULocationID ps" "p_sort_by ps"] g
      have "result \<noteq> Inl (HTTPException 400 order_detail)" by simp
      then show ?thesis
        by (cases result; cases "projl result") (auto simp: serve_body [OF Inr True g])
    qed
  qed
  ultimately show ?thesis using order_refused [of req] by blast
qed

theorem order_accepted_iff_exact_witness:
  "serve (Some []) 0 fresh_app (plain_request \<lparr> q_order := Some ''Desc'' \<rparr>)
       = (Response 422 (ValidationBody [''order'']), fresh_app)
   \<and> ''order'' \<notin> set (validation_errors (plain_request \<lparr> q_order := Some ''desc'' \<rparr>))
   \<and> fst (serve (Some []) 0 fresh_app (plain_request \<lparr> q_order := Some ''desc'' \<rparr>))
       \<noteq> Response 400 (DetailBody order_detail)"
proof -
  have v: "validation_errors (plain_request \<lparr> q_order := Some ''Desc'' \<rparr>) = [''order'']"
    by (simp add: endpoint_defs)
  have w: "validation_errors (plain_request \<lparr> q_order := Some ''desc'' \<rparr>) = []"
    by (simp add: endpoint_defs)
  from order_accepted_iff_exact [of "plain_request \<lparr> q_order := Some ''Desc'' \<rparr>" "Some []" 0 fresh_app]
       order_accepted_iff_exact [of "plain_request \<lparr> q_order := Some ''desc'' \<rparr>" "Some []" 0 fresh_app]
       v w
  show ?thesis by simp
qed

lemma get_trips_without_sort_by:
  "get_trips db page limit PULocationID None order1 = get_trips db page limit PULocationID None order2"
  by (simp add: get_trips_def Let_def)

lemma resolve_order_Inl:
  assumes "o1 \<in> {''asc'', ''desc''}" and "o2 \<in> {''asc'', ''desc''}"
    and "resolve_params (req \<lparr> q_order := Some o1 \<rparr>) = Inl errors"
  shows "resolve_params (req \<lparr> q_order := Some o2 \<rparr>) = Inl errors"
  using assms
  by (auto simp: resolve_params_def Query_str_def order_pattern_def Let_def split: if_splits)

lemma resolve_order_Inr:
  assumes "o1 \<in> {''asc'', ''desc''}" and "o2 \<in> {''asc'', ''desc''}"
    and "resolve_params (req \<lparr> q_order := Some o1 \<rparr>) = Inr ps"
  shows "resolve_params (req \<lparr> q_order := Some o2 \<rparr>) = Inr (ps \<lparr> p_order := o2 \<rparr>)"
  using assms
  by (auto simp: resolve_params_def Query_str_def order_pattern_def Let_def split: if_splits)

text \<open>
  Claim C9. For a request without \<open>sort_by\<close>, the answer and the state after it are
  the same whether \<open>order\<close> is \<open>asc\<close> or \<open>desc\<close>.
\<close>

theorem order_without_sort_by_has_no_effect:
  assumes "q_sort_by req = None"
    and o1: "o1 \<in> {''asc'', ''desc''}" and o2: "o2 \<in> {''asc'', ''desc''}"
  shows "serve db now app (req \<lparr> q_order := Some o1 \<rparr>) = serve db now app (req \<lparr> q_order := Some o2 \<rparr>)"
proof (cases "resolve_params (req \<lparr> q_order := Some o1 \<rparr>)")
  case (Inl errors)
  with resolve_order_Inl [OF o1 o2 Inl] show ?thesis by (simp add: serve_422)
next
  case (Inr ps)
  note r2 = resolve_order_Inr [OF o1 o2 Inr]
  from Inr assms(1) have sb: "p_sort_by ps = None" by (simp add: resolve_sort_by)
  have body: "get_trips db (p_page ps) (p_limit ps) (p_PULocationID ps) (p_sort_by ps) (p_order ps)
            = get_trips db (p_page ps) (p_limit ps) (p_PULocationID ps) (p_sort_by ps) o2"
    unfolding sb by (rule get_trips_without_sort_by)
  have addr: "get_remote_address (req \<lparr> q_order := Some o1 \<rparr>) = get_remote_address (req \<lparr> q_order := Some o2 \<rparr>)"
    by (simp add: get_remote_address_def)
  obtain allowed st' where
    h: "hit (limiter app) (get_remote_address (req \<lparr> q_order := Some o2 \<rparr>)) now = (allowed, st')"
    by (cases "hit (limiter app) (get_remote_address (req \<lparr> q_order := Some o2 \<rparr>)) now")
  show ?thesis
    by (cases allowed) (simp_all add: serve_def Inr r2 body addr h)
qed

theorem order_without_sort_by_has_no_effect_witness:
  "fst (serve (Some []) 0 fresh_app (plain_request \<lparr> q_order := Some ''asc'' \<rparr>))
     = fst (serve (Some []) 0 fresh_app (plain_request \<lparr> q_order := Some ''desc'' \<rparr>))
   \<and> status_code (fst (serve (Some []) 0 fresh_app (plain_request \<lparr> q_order := Some ''desc'' \<rparr>))) = 200"
proof -
  have "q_sort_by plain_request = None" by (simp add: plain_request_def)
  from order_without_sort_by_has_no_effect [OF this, of "''asc''" "''desc''" "Some []" 0 fresh_app]
  have "serve (Some []) 0 fresh_app (plain_request \<lparr> q_order := Some ''asc'' \<rparr>)
     = serve (Some []) 0 fresh_app (plain_request \<lparr> q_order := Some ''desc'' \<rparr>)" by simp
  moreover have "status_code (fst (serve (Some []) 0 fresh_app (plain_request \<lparr> q_order := Some ''asc'' \<rparr>))) = 200"
    by code_simp
  ultimately show ?thesis by simp
qed

section \<open>Process start\<close>

text \<open>
  Claim C7. With \<open>DATABASE_URL\<close> unset, the process aborts with the \<open>ValueError\<close> of
  line 21, whatever the files and the network are, the files are left as they were, and
  the aborted process serves no request.
\<close>

theorem unset_database_url_aborts_start:
  assumes "env ''DATABASE_URL'' = None"
  shows "start_process env fs net = (Aborted (ValueError ''DATABASE_URL environment variable is not set.''), fs)
       \<and> handle_request db now (fst (start_process env fs net)) req = None"
  using assms by (simp add: start_process_def import_main_def handle_request_def)

theorem unset_database_url_aborts_start_witness:
  "start_process Map.empty (Map.empty(DATABASE_FILE \<mapsto> ''SQLite format 3'')) (\<lambda>url. Streamed [])
     = (Aborted (ValueError ''DATABASE_URL environment variable is not set.''), Map.empty(DATABASE_FILE \<mapsto> ''SQLite format 3''))
   \<and> handle_request (Some []) 0 (fst (start_process Map.empty (Map.empty(DATABASE_FILE \<mapsto> ''SQLite format 3'')) (\<lambda>url. Streamed []))) plain_request = None"
  using unset_database_url_aborts_start [of Map.empty "Map.empty(DATABASE_FILE \<mapsto> ''SQLite format 3'')" "\<lambda>url. Streamed []" "Some []" 0 plain_request]
  by (simp add: handle_request_def)

section \<open>True division and the ceiling\<close>

lemma div_mod_bounds:
  fixes n d :: int
  assumes "0 < d"
  shows "(n div d) * d \<le> n" and "n < (n div d + 1) * d"
proof -
  have eq: "n = (n div d) * d + n mod d" by simp
  have "0 \<le> n mod d" and "n mod d < d" using assms by simp_all
  with eq show "(n div d) * d \<le> n" by linarith
  from eq \<open>n mod d < d\<close> have "n < (n div d) * d + d" by linarith
  then show "n < (n div d + 1) * d" by (simp add: algebra_simps)
qed

lemma round_half_even_le:
  assumes "0 < d" and "n \<le> M * d"
  shows "round_half_even n d \<le> M"
proof (cases "n mod d = 0")
  case True
  from div_mod_bounds(1) [OF assms(1), of n] assms(2) have "(n div d) * d \<le> M * d" by linarith
  with assms(1) have "n div d \<le> M" by simp
  with True assms(1) show ?thesis by (simp add: round_half_even_def Let_def)
next
  case False
  have "0 \<le> n mod d" using assms(1) by simp
  with False have "0 < n mod d" by linarith
  have "n = (n div d) * d + n mod d" by simp
  with \<open>0 < n mod d\<close> have "(n div d) * d < n" by linarith
  with assms(2) have "(n div d) * d < M * d" by linarith
  with assms(1) have "n div d < M" by (simp add: mult_less_cancel_right)
  then show ?thesis by (simp add: round_half_even_def Let_def)
qed

lemma round_half_even_gt:
  assumes "0 < d" and "M * d + t \<le> n" and "d < 2 * t"
  shows "M < round_half_even n d"
proof -
  have ge: "n div d \<le> round_half_even n d" by (simp add: round_half_even_def Let_def)
  have eq: "n = (n div d) * d + n mod d" by simp
  have "0 < t" using assms by linarith
  have "M * d \<le> n" using assms \<open>0 < t\<close> by linarith
  have "M \<le> n div d"
  proof (rule ccontr)
    assume "\<not> M \<le> n div d"
    then have "n div d + 1 \<le> M" by linarith
    with assms(1) have "(n div d + 1) * d \<le> M * d" by (simp add: mult_right_mono)
    with div_mod_bounds(2) [OF assms(1), of n] \<open>M * d \<le> n\<close> show False by linarith
  qed
  show ?thesis
  proof (cases "M < n div d")
    case True
    with ge show ?thesis by linarith
  next
    case False
    with \<open>M \<le> n div d\<close> have q: "n div d = M" by simp
    from eq have "n = M * d + n mod d" by (simp add: q)
    with assms(2) have "t \<le> n mod d" by linarith
    with assms(3) have "d < 2 * (n mod d)" by linarith
    then show ?thesis by (simp add: round_half_even_def Let_def q)
  qed
qed

lemma log2_up_spec: "0 < d \<Longrightarrow> d \<le> n \<Longrightarrow> d * 2 ^ log2_up n d \<le> n"
proof (induction n d rule: log2_up.induct)
  case (1 n d)
  show ?case
  proof (cases "2 * d \<le> n")
    case True
    with 1 have "2 * d * 2 ^ log2_up n (2 * d) \<le> n" by simp
    moreover have "log2_up n d = Suc (log2_up n (2 * d))"
      using True "1.prems" by (subst log2_up.simps) simp
    ultimately show ?thesis by (simp add: mult.assoc)
  next
    case False
    then have "log2_up n d = 0" by (subst log2_up.simps) simp
    with "1.prems" show ?thesis by simp
  qed
qed

lemma scale_bound:
  assumes "0 < a" and "a < 2 ^ 53" and "1 \<le> b" and "b < 2 ^ 53"
  defines "e \<equiv> max (floor_log2 a b) (- 1022)"
  shows "e \<le> 52" and "b < 2 * 2 ^ nat (52 - e)"
proof -
  have "e \<le> 52 \<and> b < 2 * 2 ^ nat (52 - e)"
  proof (cases "b \<le> a")
    case True
    define j where "j = log2_up a b"
    from True have fl: "floor_log2 a b = int j" by (simp add: floor_log2_def j_def)
    then have e: "e = int j" by (simp add: e_def)
    from log2_up_spec [of b a] True assms(3) have le: "b * 2 ^ j \<le> a" by (simp add: j_def)
    have "(1::int) * 2 ^ j \<le> b * 2 ^ j" using assms(3) by (intro mult_right_mono) simp_all
    with le assms(2) have "(2::int) ^ j < 2 ^ 53" by linarith
    then have j: "j < 53" by (rule power_less_imp_less_exp [of "2::int", rotated]) simp
    then have split: "(2::int) ^ 53 = 2 * 2 ^ (52 - j) * 2 ^ j"
      by (simp flip: power_add power_Suc)
    from le assms(2) have "b * 2 ^ j < 2 * 2 ^ (52 - j) * 2 ^ j" by (simp flip: split)
    then have "b < 2 * 2 ^ (52 - j)" by (simp add: mult_less_cancel_right)
    moreover have "nat (52 - e) = 52 - j" by (simp add: e)
    ultimately show ?thesis using j by (simp add: e)
  next
    case False
    then have "floor_log2 a b \<le> 0" by (simp add: floor_log2_def)
    then have e: "e \<le> 0" by (simp add: e_def)
    then have "52 \<le> nat (52 - e)" by simp
    then have "(2::int) ^ 52 \<le> 2 ^ nat (52 - e)" by (rule power_increasing) simp
    with assms(4) e show ?thesis by simp
  qed
  then show "e \<le> 52" and "b < 2 * 2 ^ nat (52 - e)" by simp_all
qed

lemma truediv_ceiling:
  assumes "0 \<le> a" and "a < 2 ^ 53" and "1 \<le> b" and "b < 2 ^ 53"
  shows "\<exists>x. truediv a b = Inr x \<and> math_ceil x = \<lceil>of_int a / of_int b :: rat\<rceil>"
proof (cases "a = 0")
  case True
  with assms(3) show ?thesis by (simp add: truediv_def math_ceil_def)
next
  case False
  with assms(1) have a: "0 < a" by simp
  define e where "e = max (floor_log2 a b) (- 1022)"
  define k where "k = nat (52 - e)"
  define c where "c = \<lceil>of_int a / of_int b :: rat\<rceil>"
  define m where "m = round_half_even (a * 2 ^ k) b"
  from scale_bound [OF a assms(2-4)] have e52: "e \<le> 52" and b2s: "b < 2 * 2 ^ k"
    by (simp_all add: e_def k_def)
  have b0: "0 < b" using assms(3) by simp
  have brat: "(0::rat) < of_int b" using b0 by simp
  have "of_int a / of_int b \<le> (of_int c :: rat)" by (simp add: c_def)
  with brat have "(of_int a :: rat) \<le> of_int c * of_int b" by (simp add: pos_divide_le_eq)
  then have up: "a \<le> c * b" by (simp flip: of_int_mult)
  have "(of_int c :: rat) - 1 < of_int a / of_int b"
    unfolding c_def by linarith
  with brat have "((of_int c :: rat) - 1) * of_int b < of_int a" by (simp add: pos_less_divide_eq)
  then have "(of_int ((c - 1) * b) :: rat) < of_int a" by simp
  then have low: "(c - 1) * b < a" by (simp only: of_int_less_iff)
  have s0: "(0::int) < 2 ^ k" by simp
  have "a * 2 ^ k \<le> (c * b) * 2 ^ k" using up by (intro mult_right_mono) simp_all
  then have "a * 2 ^ k \<le> (c * 2 ^ k) * b" by (simp add: mult_ac)
  from round_half_even_le [OF b0 this] have m_le: "m \<le> c * 2 ^ k" by (simp add: m_def)
  from low have "(c - 1) * b + 1 \<le> a" by simp
  then have "((c - 1) * b + 1) * 2 ^ k \<le> a * 2 ^ k" by (intro mult_right_mono) simp_all
  then have "((c - 1) * 2 ^ k) * b + 2 ^ k \<le> a * 2 ^ k" by (simp add: algebra_simps)
  from round_half_even_gt [OF b0 this] b2s have m_gt: "(c - 1) * 2 ^ k < m" by (simp add: m_def)
  define x :: rat where "x = of_int m / 2 ^ k"
  have pk: "(0::rat) < 2 ^ k" by simp
  from m_le have "(of_int m :: rat) \<le> of_int (c * 2 ^ k)" by (simp only: of_int_le_iff)
  then have "(of_int m :: rat) \<le> of_int c * 2 ^ k" by simp
  with pk have x_le: "x \<le> of_int c" by (simp add: x_def pos_divide_le_eq)
  from m_gt have "(of_int ((c - 1) * 2 ^ k) :: rat) < of_int m" by (simp only: of_int_less_iff)
  then have "((of_int c :: rat) - 1) * 2 ^ k < of_int m" by simp
  with pk have x_gt: "of_int c - 1 < x" by (simp add: x_def pos_less_divide_eq)
  from x_gt x_le have ceil: "\<lceil>x\<rceil> = c" by (rule ceiling_unique)
  have "c \<le> a"
  proof -
    have "(of_int a :: rat) / of_int b \<le> of_int a"
      using assms(1,3) by (simp add: divide_le_eq mult_le_cancel_left1)
    then show ?thesis by (simp add: c_def ceiling_le_iff)
  qed
  with assms(2) have "(of_int c :: rat) < of_int ((2::int) ^ 53)" by (simp only: of_int_less_iff)
  then have "(of_int c :: rat) < 2 ^ 53" by simp
  moreover have "(2::rat) ^ 53 \<le> 2 ^ 1024" by (rule power_increasing) simp_all
  ultimately have "x < 2 ^ 1024" using x_le by linarith
  then have nov: "\<not> 2 ^ 1024 \<le> x" by simp
  have sg: "sgn a * sgn b = 1" using a b0 by simp
  have e52': "max (floor_log2 a b) (- 1022) \<le> 52" using e52 by (simp only: e_def)
  have xeq: "x = of_int (round_half_even (a * 2 ^ nat (52 - max (floor_log2 a b) (- 1022))) b)
                   / 2 ^ nat (52 - max (floor_log2 a b) (- 1022))"
    by (simp only: x_def m_def k_def e_def)
  have "truediv a b = Inr (of_int (sgn a * sgn b) * x)"
    unfolding truediv_def Let_def xeq
    using a b0 e52' nov [unfolded xeq] by simp
  then have "truediv a b = Inr x" by (simp only: sg of_int_1 mult_1)
  with ceil show ?thesis by (simp add: math_ceil_def c_def)
qed

section \<open>The statements the engine recognises\<close>

lemma prepare_count_closed:
  "sqlite_prepare (sql_text (CountStar False)) = Some (CountStar False)"
  "sqlite_prepare (sql_text (CountStar True)) = Some (CountStar True)"
  by code_simp+

lemma prepare_count: "sqlite_prepare (sql_text (CountStar w)) = Some (CountStar w)"
  by (cases w) (simp_all only: prepare_count_closed)

lemma prepare_select_plain_closed:
  "sqlite_prepare (sql_text (SelectStar False None)) = Some (SelectStar False None)"
  "sqlite_prepare (sql_text (SelectStar True None)) = Some (SelectStar True None)"
  by code_simp+

lemma prepare_select_plain: "sqlite_prepare (sql_text (SelectStar w None)) = Some (SelectStar w None)"
  by (cases w) (simp_all only: prepare_select_plain_closed)

lemma prepare_select_ordered_closed:
  "sqlite_prepare (sql_text (SelectStar False (Some (''pickup_datetime'', False)))) = Some (SelectStar False (Some (''pickup_datetime'', False)))"
  "sqlite_prepare (sql_text (SelectStar False (Some (''pickup_datetime'', True)))) = Some (SelectStar False (Some (''pickup_datetime'', True)))"
  "sqlite_prepare (sql_text (SelectStar False (Some (''trip_miles'', False)))) = Some (SelectStar False (Some (''trip_miles'', False)))"
  "sqlite_prepare (sql_text (SelectStar False (Some (''trip_miles'', True)))) = Some (SelectStar False (Some (''trip_miles'', True)))"
  "sqlite_prepare (sql_text (SelectStar False (Some (''trip_duration_minutes'', False)))) = Some (SelectStar False (Some (''trip_duration_minutes'', False)))"
  "sqlite_prepare (sql_text (SelectStar False (Some (''trip_duration_minutes'', True)))) = Some (SelectStar False (Some (''trip_duration_minutes'', True)))"
  "sqlite_prepare (sql_text (SelectStar False (Some (''PULocationID'', False)))) = Some (SelectStar False (Some (''PULocationID'', False)))"
  "sqlite_prepare (sql_text (SelectStar False (Some (''PULocationID'', True)))) = Some (SelectStar False (Some (''PULocationID'', True)))"
  "sqlite_prepare (sql_text (SelectStar False (Some (''DOLocationID'', False)))) = Some (SelectStar False (Some (''DOLocationID'', False)))"
  "sqlite_prepare (sql_text (SelectStar False (Some (''DOLocationID'', True)))) = Some (SelectStar False (Some (''DOLocationID'', True)))"
  "sqlite_prepare (sql_text (SelectStar True (Some (''pickup_datetime'', False)))) = Some (SelectStar True (Some (''pickup_datetime'', False)))"
  "sqlite_prepare (sql_text (SelectStar True (Some (''pickup_datetime'', True)))) = Some (SelectStar True (Some (''pickup_datetime'', True)))"
  "sqlite_prepare (sql_text (SelectStar True (Some (''trip_miles'', False)))) = Some (SelectStar True (Some (''trip_miles'', False)))"
  "sqlite_prepare (sql_text (SelectStar True (Some (''trip_miles'', True)))) = Some (SelectStar True (Some (''trip_miles'', True)))"
  "sqlite_prepare (sql_text (SelectStar True (Some (''trip_duration_minutes'', False)))) = Some (SelectStar True (Some (''trip_duration_minutes'', False)))"
  "sqlite_prepare (sql_text (SelectStar True (Some (''trip_duration_minutes'', True)))) = Some (SelectStar True (Some (''trip_duration_minutes'', True)))"
  "sqlite_prepare (sql_text (SelectStar True (Some (''PULocationID'', False)))) = Some (SelectStar True (Some (''PULocationID'', False)))"
  "sqlite_prepare (sql_text (SelectStar True (Some (''PULocationID'', True)))) = Some (SelectStar True (Some (''PULocationID'', True)))"
  "sqlite_prepare (sql_text (SelectStar True (Some (''DOLocationID'', False)))) = Some (SelectStar True (Some (''DOLocationID'', False)))"
  "sqlite_prepare (sql_text (SelectStar True (Some (''DOLocationID'', True)))) = Some (SelectStar True (Some (''DOLocationID'', True)))"
  by code_simp+

lemma prepare_select_ordered:
  assumes "c \<in> set VALID_SORT_COLUMNS"
  shows "sqlite_prepare (sql_text (SelectStar w (Some (c, d)))) = Some (SelectStar w (Some (c, d)))"
proof -
  from assms have "c = ''pickup_datetime'' \<or> c = ''trip_miles'' \<or> c = ''trip_duration_minutes''
      \<or> c = ''PULocationID'' \<or> c = ''DOLocationID''"
    by (simp add: VALID_SORT_COLUMNS_def)
  then show ?thesis
    by (cases w; cases d; elim disjE) (simp_all only: prepare_select_ordered_closed)
qed

lemma prepare_select:
  assumes "sort_by = None \<or> the sort_by \<in> set VALID_SORT_COLUMNS"
  shows "sqlite_prepare (sql_text (SelectStar w (order_by_of sort_by order)))
           = Some (SelectStar w (order_by_of sort_by order))"
proof (cases sort_by)
  case None
  then show ?thesis by (simp only: order_by_of_def option.case prepare_select_plain)
next
  case (Some c)
  with assms have "c \<in> set VALID_SORT_COLUMNS" by simp
  from prepare_select_ordered [OF this] Some show ?thesis
    by (simp only: order_by_of_def option.case)
qed

lemma where_join:
  "(if conditions_of PULocationID \<noteq> []
    then q0 @ '' WHERE '' @ join '' AND '' (conditions_of PULocationID) else q0)
   = q0 @ where_text (PULocationID \<noteq> None)"
  by (cases PULocationID) (simp_all add: conditions_of_def where_text_def)

section \<open>Upper case of an accepted order\<close>

lemma lower_char_eq:
  assumes "lower_char c = l"
  shows "c = l \<or> (c, l) \<in> set (zip ''ABCDEFGHIJKLMNOPQRSTUVWXYZ'' ''abcdefghijklmnopqrstuvwxyz'')"
proof (cases "map_of (zip ''ABCDEFGHIJKLMNOPQRSTUVWXYZ'' ''abcdefghijklmnopqrstuvwxyz'') c")
  case None
  with assms have "c = l" by (simp only: lower_char_def option.case)
  then show ?thesis by (rule disjI1)
next
  case (Some l')
  with assms have "l' = l" by (simp only: lower_char_def option.case)
  with Some have "map_of (zip ''ABCDEFGHIJKLMNOPQRSTUVWXYZ'' ''abcdefghijklmnopqrstuvwxyz'') c = Some l"
    by (simp only:)
  then have "(c, l) \<in> set (zip ''ABCDEFGHIJKLMNOPQRSTUVWXYZ'' ''abcdefghijklmnopqrstuvwxyz'')"
    by (rule map_of_SomeD)
  then show ?thesis by (rule disjI2)
qed

lemma upper_char_closed:
  "upper_char CHR ''a'' = CHR ''A''" "upper_char CHR ''A'' = CHR ''A''"
  "upper_char CHR ''s'' = CHR ''S''" "upper_char CHR ''S'' = CHR ''S''"
  "upper_char CHR ''c'' = CHR ''C''" "upper_char CHR ''C'' = CHR ''C''"
  "upper_char CHR ''d'' = CHR ''D''" "upper_char CHR ''D'' = CHR ''D''"
  "upper_char CHR ''e'' = CHR ''E''" "upper_char CHR ''E'' = CHR ''E''"
  by code_simp+

lemma upper_of_lower_a: "lower_char c = CHR ''a'' \<Longrightarrow> upper_char c = CHR ''A''"
proof -
  assume "lower_char c = CHR ''a''"
  from lower_char_eq [OF this] have "c = CHR ''a'' \<or> c = CHR ''A''" by simp
  then show ?thesis by (elim disjE) (simp_all only: upper_char_closed)
qed

lemma upper_of_lower_s: "lower_char c = CHR ''s'' \<Longrightarrow> upper_char c = CHR ''S''"
proof -
  assume "lower_char c = CHR ''s''"
  from lower_char_eq [OF this] have "c = CHR ''s'' \<or> c = CHR ''S''" by simp
  then show ?thesis by (elim disjE) (simp_all only: upper_char_closed)
qed

lemma upper_of_lower_c: "lower_char c = CHR ''c'' \<Longrightarrow> upper_char c = CHR ''C''"
proof -
  assume "lower_char c = CHR ''c''"
  from lower_char_eq [OF this] have "c = CHR ''c'' \<or> c = CHR ''C''" by simp
  then show ?thesis by (elim disjE) (simp_all only: upper_char_closed)
qed

lemma upper_of_lower_d: "lower_char c = CHR ''d'' \<Longrightarrow> upper_char c = CHR ''D''"
proof -
  assume "lower_char c = CHR ''d''"
  from lower_char_eq [OF this] have "c = CHR ''d'' \<or> c = CHR ''D''" by simp
  then show ?thesis by (elim disjE) (simp_all only: upper_char_closed)
qed

lemma upper_of_lower_e: "lower_char c = CHR ''e'' \<Longrightarrow> upper_char c = CHR ''E''"
proof -
  assume "lower_char c = CHR ''e''"
  from lower_char_eq [OF this] have "c = CHR ''e'' \<or> c = CHR ''E''" by simp
  then show ?thesis by (elim disjE) (simp_all only: upper_char_closed)
qed

lemma upper_asc:
  assumes "lower s = ''asc''"
  shows "upper s = ''ASC''"
proof -
  from assms obtain c1 c2 c3 where s: "s = [c1, c2, c3]"
    and l: "lower_char c1 = CHR ''a''" "lower_char c2 = CHR ''s''" "lower_char c3 = CHR ''c''"
    unfolding lower_def by (auto simp: map_eq_Cons_conv)
  show ?thesis
    by (simp add: s upper_def upper_of_lower_a [OF l(1)] upper_of_lower_s [OF l(2)] upper_of_lower_c [OF l(3)])
qed

lemma upper_desc:
  assumes "lower s = ''desc''"
  shows "upper s = ''DESC''"
proof -
  from assms obtain c1 c2 c3 c4 where s: "s = [c1, c2, c3, c4]"
    and l: "lower_char c1 = CHR ''d''" "lower_char c2 = CHR ''e''" "lower_char c3 = CHR ''s''"
      "lower_char c4 = CHR ''c''"
    unfolding lower_def by (auto simp: map_eq_Cons_conv)
  show ?thesis
    by (simp add: s upper_def upper_of_lower_d [OF l(1)] upper_of_lower_e [OF l(2)]
        upper_of_lower_s [OF l(3)] upper_of_lower_c [OF l(4)])
qed

section \<open>The text of the two queries\<close>

lemma where_text_TABLE: "''SELECT * FROM '' @ TABLE_NAME = ''SELECT * FROM trips''"
  "''SELECT COUNT(*) as total FROM '' @ TABLE_NAME = ''SELECT COUNT(*) as total FROM trips''"
  by (simp_all add: TABLE_NAME_def)

lemma count_text:
  "(if conditions_of PULocationID \<noteq> []
    then (''SELECT COUNT(*) as total FROM '' @ TABLE_NAME) @ '' WHERE '' @ join '' AND '' (conditions_of PULocationID)
    else ''SELECT COUNT(*) as total FROM '' @ TABLE_NAME)
   = sql_text (CountStar (PULocationID \<noteq> None))"
  by (simp only: where_join where_text_TABLE sql_text.simps)

lemma final_text:
  assumes "sort_by = None \<or> lower order \<in> set [''asc'', ''desc'']"
  shows "base_query_of PULocationID sort_by order @ '' '' @ ''LIMIT ? OFFSET ?''
           = sql_text (SelectStar (PULocationID \<noteq> None) (order_by_of sort_by order))"
proof (cases sort_by)
  case None
  then show ?thesis
    by (simp add: base_query_of_def order_by_of_def where_join TABLE_NAME_def Let_def)
next
  case (Some c)
  with assms consider "lower order = ''asc''" | "lower order = ''desc''" by auto
  then show ?thesis
  proof cases
    case 1
    with Some upper_asc [OF 1] show ?thesis
      by (simp add: base_query_of_def order_by_of_def where_join TABLE_NAME_def Let_def)
  next
    case 2
    with Some upper_desc [OF 2] show ?thesis
      by (simp add: base_query_of_def order_by_of_def where_join TABLE_NAME_def Let_def)
  qed
qed

section \<open>Running the statements\<close>

lemma execute_no_table: "execute None q vs = Inr cur \<Longrightarrow> False"
  by (simp add: execute_def split: option.splits)

lemma execute_count:
  "execute (Some rows) (sql_text (CountStar w)) vs =
     (if length vs \<noteq> (if w then 1 else 0)
        then Inl (ProgrammingError ''Incorrect number of bindings supplied.'')
      else if \<not> list_all fits_int64 vs
        then Inl (OverflowError ''Python int too large to convert to SQLite INTEGER'')
      else Inr (CountRow (int (length (matching w vs rows)))))"
  by (simp add: execute_def prepare_count del: sql_text.simps)

lemma execute_select:
  assumes "sqlite_prepare q = Some (SelectStar w ob)"
  shows "execute (Some rows) q vs =
     (if length vs \<noteq> (if w then 3 else 2)
        then Inl (ProgrammingError ''Incorrect number of bindings supplied.'')
      else if \<not> list_all fits_int64 vs
        then Inl (OverflowError ''Python int too large to convert to SQLite INTEGER'')
      else Inr (Rows (limit_offset (vs ! (length vs - 2)) (vs ! (length vs - 1))
                        (order_rows ob (matching w vs rows)))))"
  using assms by (simp add: execute_def)

lemma length_limit_offset: "0 \<le> l \<Longrightarrow> length (limit_offset l off rs) \<le> nat l"
  by (simp add: limit_offset_def Let_def)

lemma limit_offset_past_end: "int (length rs) \<le> off \<Longrightarrow> limit_offset l off rs = []"
  by (simp add: limit_offset_def Let_def)

lemma execute_rows_bounded:
  assumes "execute db q vs = Inr cur" and "0 \<le> vs ! (length vs - 2)"
  shows "length (fetchall cur) \<le> nat (vs ! (length vs - 2))"
proof (cases db)
  case None
  with assms(1) show ?thesis by (simp add: execute_def split: option.splits)
next
  case (Some rows)
  show ?thesis
  proof (cases "sqlite_prepare q")
    case None
    with assms(1) show ?thesis by (simp add: execute_def)
  next
    case prep: (Some s)
    show ?thesis
    proof (cases s)
      case (CountStar w)
      with assms(1) Some prep show ?thesis by (auto simp: execute_def split: if_splits)
    next
      case (SelectStar w ob)
      with assms Some prep show ?thesis
        by (auto simp: execute_def length_limit_offset split: if_splits)
    qed
  qed
qed

lemma length_insert_row: "length (insert_row le r xs) = Suc (length xs)"
  by (induction xs) simp_all

lemma length_foldr_insert_row: "length (foldr (insert_row le) rs acc) = length rs + length acc"
  by (induction rs) (simp_all add: length_insert_row)

lemma length_order_rows: "length (order_rows ob rs) = length rs"
  by (cases ob) (auto simp: order_rows_def length_foldr_insert_row)

lemma matching_values:
  "matching (PULocationID \<noteq> None) (values_of PULocationID @ extra) rows
     = matching (PULocationID \<noteq> None) (values_of PULocationID) rows"
  by (cases PULocationID) (simp_all add: matching_def values_of_def)

lemma length_matching: "length (matching w vs rows) \<le> length rows"
  by (simp add: matching_def)

lemma length_values_of: "length (values_of PULocationID) = (if PULocationID \<noteq> None then 1 else 0)"
  by (cases PULocationID) (simp_all add: values_of_def)

section \<open>The storage work of the body\<close>

lemma storage_phase_events:
  "snd (storage_phase db page limit (conditions_of PULocationID) (values_of PULocationID) base_query)
     \<in> {[Connect DATABASE_FILE,
          Execute (sql_text (CountStar (PULocationID \<noteq> None))) (values_of PULocationID)],
         [Connect DATABASE_FILE,
          Execute (sql_text (CountStar (PULocationID \<noteq> None))) (values_of PULocationID),
          Execute (base_query @ '' '' @ ''LIMIT ? OFFSET ?'')
            (values_of PULocationID @ [limit, (page - 1) * limit])]}"
  unfolding storage_phase_def Let_def count_text
  by (simp del: sql_text.simps split: sum.split)

lemma storage_phase_Inr:
  assumes "storage_phase db page limit (conditions_of PULocationID) (values_of PULocationID) base_query
             = (Inr r, events)"
  shows "\<exists>total_cursor total_records ratio data_cursor.
           execute db (sql_text (CountStar (PULocationID \<noteq> None))) (values_of PULocationID) = Inr total_cursor
         \<and> fetchone_first total_cursor = Inr total_records
         \<and> truediv total_records limit = Inr ratio
         \<and> execute db (base_query @ '' '' @ ''LIMIT ? OFFSET ?'')
              (values_of PULocationID @ [limit, (page - 1) * limit]) = Inr data_cursor
         \<and> r = \<lparr> resp_metadata =
                    \<lparr> meta_total_records = total_records, meta_total_pages = math_ceil ratio,
                      meta_current_page = page, meta_limit = limit \<rparr>,
                  resp_data = fetchall data_cursor \<rparr>
         \<and> events = [Connect DATABASE_FILE,
              Execute (sql_text (CountStar (PULocationID \<noteq> None))) (values_of PULocationID),
              Execute (base_query @ '' '' @ ''LIMIT ? OFFSET ?'')
                (values_of PULocationID @ [limit, (page - 1) * limit])]"
  using assms unfolding storage_phase_def Let_def count_text
  by (simp del: sql_text.simps split: sum.splits)

lemma storage_phase_success:
  assumes "execute db (sql_text (CountStar (PULocationID \<noteq> None))) (values_of PULocationID) = Inr total_cursor"
    and "fetchone_first total_cursor = Inr total_records"
    and "truediv total_records limit = Inr ratio"
    and "execute db (base_query @ '' '' @ ''LIMIT ? OFFSET ?'')
              (values_of PULocationID @ [limit, (page - 1) * limit]) = Inr data_cursor"
  shows "storage_phase db page limit (conditions_of PULocationID) (values_of PULocationID) base_query
           = (Inr \<lparr> resp_metadata =
                    \<lparr> meta_total_records = total_records, meta_total_pages = math_ceil ratio,
                      meta_current_page = page, meta_limit = limit \<rparr>,
                  resp_data = fetchall data_cursor \<rparr>,
              [Connect DATABASE_FILE,
               Execute (sql_text (CountStar (PULocationID \<noteq> None))) (values_of PULocationID),
               Execute (base_query @ '' '' @ ''LIMIT ? OFFSET ?'')
                 (values_of PULocationID @ [limit, (page - 1) * limit])])"
  using assms unfolding storage_phase_def Let_def count_text
  by (simp del: sql_text.simps)

section \<open>What the body returns\<close>

lemma storable_count:
  assumes "storable (Some rows)"
  shows "int (length (matching w vs rows)) < 2 ^ 53"
proof -
  have "int (length (matching w vs rows)) \<le> int (length rows)" by (simp add: length_matching)
  also from assms have "\<dots> \<le> SQLITE_MAX_BYTES" by (simp add: storable_def)
  also have "\<dots> < 2 ^ 53" by (simp add: SQLITE_MAX_BYTES_def)
  finally show ?thesis .
qed

lemma get_trips_Inr:
  assumes "get_trips db page limit PULocationID sort_by order = (Inr r, events)"
  shows "sort_accepted sort_by order"
    and "storage_phase db page limit (conditions_of PULocationID) (values_of PULocationID)
           (base_query_of PULocationID sort_by order) = (Inr r, events)"
  using assms
  by (cases sort_by; simp add: get_trips_phases sort_accepted_def split: if_splits)+

lemma execute_count_Inr:
  assumes "execute db (sql_text (CountStar w)) vs = Inr cur"
  shows "\<exists>rows. db = Some rows \<and> cur = CountRow (int (length (matching w vs rows)))"
proof (cases db)
  case None
  with assms show ?thesis by (simp add: execute_def split: option.splits)
next
  case (Some rows)
  with assms show ?thesis by (simp add: execute_count del: sql_text.simps split: if_splits)
qed

lemma get_trips_result:
  assumes "get_trips db page limit PULocationID sort_by order = (Inr r, events)"
  shows "\<exists>rows ratio data_cursor.
           db = Some rows
         \<and> truediv (int (length (matching (PULocationID \<noteq> None) (values_of PULocationID) rows))) limit
             = Inr ratio
         \<and> execute db (base_query_of PULocationID sort_by order @ '' LIMIT ? OFFSET ?'')
              (values_of PULocationID @ [limit, (page - 1) * limit]) = Inr data_cursor
         \<and> r = \<lparr> resp_metadata =
                    \<lparr> meta_total_records =
                        int (length (matching (PULocationID \<noteq> None) (values_of PULocationID) rows)),
                      meta_total_pages = math_ceil ratio,
                      meta_current_page = page, meta_limit = limit \<rparr>,
                  resp_data = fetchall data_cursor \<rparr>
         \<and> events = events_of page limit PULocationID sort_by order"
proof -
  from storage_phase_Inr [OF get_trips_Inr(2) [OF assms]]
  obtain total_cursor total_records ratio data_cursor where
    c: "execute db (sql_text (CountStar (PULocationID \<noteq> None))) (values_of PULocationID) = Inr total_cursor"
    and f: "fetchone_first total_cursor = Inr total_records"
    and t: "truediv total_records limit = Inr ratio"
    and d: "execute db (base_query_of PULocationID sort_by order @ '' '' @ ''LIMIT ? OFFSET ?'')
              (values_of PULocationID @ [limit, (page - 1) * limit]) = Inr data_cursor"
    and r: "r = \<lparr> resp_metadata =
                    \<lparr> meta_total_records = total_records, meta_total_pages = math_ceil ratio,
                      meta_current_page = page, meta_limit = limit \<rparr>,
                  resp_data = fetchall data_cursor \<rparr>"
    and e: "events = [Connect DATABASE_FILE,
              Execute (sql_text (CountStar (PULocationID \<noteq> None))) (values_of PULocationID),
              Execute (base_query_of PULocationID sort_by order @ '' '' @ ''LIMIT ? OFFSET ?'')
                (values_of PULocationID @ [limit, (page - 1) * limit])]"
    by blast
  from execute_count_Inr [OF c] obtain rows where
    db: "db = Some rows"
    and cur: "total_cursor = CountRow (int (length (matching (PULocationID \<noteq> None) (values_of PULocationID) rows)))"
    by blast
  from f cur have "total_records = int (length (matching (PULocationID \<noteq> None) (values_of PULocationID) rows))"
    by simp
  with db t d r e show ?thesis by (simp add: events_of_def del: sql_text.simps)
qed

lemma get_trips_success:
  assumes db: "db = Some rows" and st: "storable db"
    and lim: "1 \<le> limit" "limit \<le> 10000"
    and fits: "list_all fits_int64 (values_of PULocationID @ [limit, (page - 1) * limit])"
    and sort: "sort_accepted sort_by order"
  shows "get_trips db page limit PULocationID sort_by order =
     (Inr \<lparr> resp_metadata =
              \<lparr> meta_total_records =
                  int (length (matching (PULocationID \<noteq> None) (values_of PULocationID) rows)),
                meta_total_pages =
                  \<lceil>of_int (int (length (matching (PULocationID \<noteq> None) (values_of PULocationID) rows)))
                     / of_int limit :: rat\<rceil>,
                meta_current_page = page, meta_limit = limit \<rparr>,
            resp_data = page_of rows page limit PULocationID sort_by order \<rparr>,
      events_of page limit PULocationID sort_by order)"
proof -
  let ?vals = "values_of PULocationID"
  let ?w = "PULocationID \<noteq> None"
  let ?total = "int (length (matching ?w ?vals rows))"
  have lv: "length ?vals = (if ?w then 1 else 0)" by (rule length_values_of)
  from fits have fv: "list_all fits_int64 ?vals" by simp
  have c: "execute db (sql_text (CountStar ?w)) ?vals = Inr (CountRow ?total)"
    using lv fv by (simp add: db execute_count del: sql_text.simps)
  have f: "fetchone_first (CountRow ?total) = Inr ?total" by simp
  have "limit < 2 ^ 53" using lim(2) by simp
  moreover have "?total < 2 ^ 53" using storable_count [of rows ?w ?vals] st db by simp
  moreover have "0 \<le> ?total" by simp
  ultimately have "\<exists>x. truediv ?total limit = Inr x
      \<and> math_ceil x = \<lceil>of_int ?total / of_int limit :: rat\<rceil>"
    using lim(1) by (intro truediv_ceiling)
  then obtain ratio where t: "truediv ?total limit = Inr ratio"
    and ceil: "math_ceil ratio = \<lceil>of_int ?total / of_int limit :: rat\<rceil>"
    by blast
  from sort have s1: "sort_by = None \<or> lower order \<in> set [''asc'', ''desc'']"
    and s2: "sort_by = None \<or> the sort_by \<in> set VALID_SORT_COLUMNS"
    by (auto simp: sort_accepted_def split: option.splits)
  from final_text [OF s1, of PULocationID]
  have qtext: "base_query_of PULocationID sort_by order @ '' LIMIT ? OFFSET ?''
                 = sql_text (SelectStar ?w (order_by_of sort_by order))"
    by (simp del: sql_text.simps)
  from prepare_select [OF s2, of ?w order]
  have prep: "sqlite_prepare (base_query_of PULocationID sort_by order @ '' LIMIT ? OFFSET ?'')
                = Some (SelectStar ?w (order_by_of sort_by order))"
    by (simp only: qtext)
  have "execute db (base_query_of PULocationID sort_by order @ '' LIMIT ? OFFSET ?'')
             (?vals @ [limit, (page - 1) * limit])
           = (if length (?vals @ [limit, (page - 1) * limit]) \<noteq> (if ?w then 3 else 2)
                then Inl (ProgrammingError ''Incorrect number of bindings supplied.'')
              else if \<not> list_all fits_int64 (?vals @ [limit, (page - 1) * limit])
                then Inl (OverflowError ''Python int too large to convert to SQLite INTEGER'')
              else Inr (Rows (limit_offset
                        ((?vals @ [limit, (page - 1) * limit])
                           ! (length (?vals @ [limit, (page - 1) * limit]) - 2))
                        ((?vals @ [limit, (page - 1) * limit])
                           ! (length (?vals @ [limit, (page - 1) * limit]) - 1))
                        (order_rows (order_by_of sort_by order)
                           (matching ?w (?vals @ [limit, (page - 1) * limit]) rows)))))"
    unfolding db by (rule execute_select [OF prep])
  also have "\<dots> = Inr (Rows (page_of rows page limit PULocationID sort_by order))"
    using fits by (cases PULocationID) (simp_all add: page_of_def matching_def values_of_def)
  finally have d: "execute db (base_query_of PULocationID sort_by order @ '' '' @ ''LIMIT ? OFFSET ?'')
             (?vals @ [limit, (page - 1) * limit])
           = Inr (Rows (page_of rows page limit PULocationID sort_by order))"
    by simp
  from sort have no_reject:
    "\<not> (sort_by \<noteq> None \<and> the sort_by \<notin> set VALID_SORT_COLUMNS)"
    "\<not> (sort_by \<noteq> None \<and> lower order \<notin> set [''asc'', ''desc''])"
    by (auto simp: sort_accepted_def split: option.splits)
  from storage_phase_success [OF c f t d] no_reject ceil show ?thesis
    by (simp add: get_trips_phases events_of_def del: sql_text.simps)
qed

lemma ceiling_quotient:
  assumes "0 < b"
  shows "\<lceil>of_int a / of_int b :: rat\<rceil> = (if a mod b = 0 then a div b else a div b + 1)"
proof -
  have "\<lceil>of_int a / of_int b :: rat\<rceil> = - (- a div b)" by (rule ceiling_divide_eq_div)
  also have "- a div b = (if a mod b = 0 then - (a div b) else - (a div b) - 1)"
    using assms by (simp add: zdiv_zminus1_eq_if)
  finally show ?thesis by simp
qed

lemma nth_limit:
  "(values_of PULocationID @ [limit, off]) ! (length (values_of PULocationID @ [limit, off]) - 2) = limit"
  by (cases PULocationID) (simp_all add: values_of_def)

lemma get_trips_events:
  "snd (get_trips db page limit PULocationID sort_by order)
     \<in> {[], butlast (events_of page limit PULocationID sort_by order),
         events_of page limit PULocationID sort_by order}"
  using storage_phase_events [of db page limit PULocationID "base_query_of PULocationID sort_by order"]
  by (auto simp: get_trips_phases events_of_def simp del: sql_text.simps)

section \<open>Pagination\<close>

text \<open>A request answered with a page is one whose body returned that page.\<close>

lemma serve_page:
  assumes "fst (serve db now app req) = Response 200 (PageBody r)"
  shows "\<exists>ps events. resolve_params req = Inr ps
           \<and> get_trips db (p_page ps) (p_limit ps) (p_PULocationID ps) (p_sort_by ps) (p_order ps)
               = (Inr r, events)
           \<and> db_log (snd (serve db now app req)) = db_log app @ events"
proof (cases "resolve_params req")
  case (Inl errors)
  with assms show ?thesis by (simp add: serve_422)
next
  case (Inr ps)
  show ?thesis
  proof (cases "fst (hit (limiter app) (get_remote_address req) now)")
    case False
    with Inr assms show ?thesis by (simp add: serve_429)
  next
    case True
    obtain result events where
      g: "get_trips db (p_page ps) (p_limit ps) (p_PULocationID ps) (p_sort_by ps) (p_order ps)
            = (result, events)"
      by (cases "get_trips db (p_page ps) (p_limit ps) (p_PULocationID ps) (p_sort_by ps) (p_order ps)")
    note s = serve_body [OF Inr True g]
    have "result = Inr r"
    proof (cases result)
      case (Inr r')
      with s assms show ?thesis by simp
    next
      case (Inl e)
      with s assms show ?thesis by (cases e) simp_all
    qed
    with Inr g s show ?thesis by simp
  qed
qed

lemma get_trips_rows_bounded:
  assumes "1 \<le> limit" and "get_trips db page limit PULocationID sort_by order = (Inr r, events)"
  shows "events = events_of page limit PULocationID sort_by order"
    and "length (resp_data r) \<le> nat limit"
    and "meta_limit (resp_metadata r) = limit" and "meta_current_page (resp_metadata r) = page"
proof -
  from get_trips_result [OF assms(2)] obtain data_cursor where
    d: "execute db (base_query_of PULocationID sort_by order @ '' LIMIT ? OFFSET ?'')
            (values_of PULocationID @ [limit, (page - 1) * limit]) = Inr data_cursor"
    and r: "resp_data r = fetchall data_cursor"
    and m: "meta_limit (resp_metadata r) = limit" "meta_current_page (resp_metadata r) = page"
    and e: "events = events_of page limit PULocationID sort_by order"
    by auto
  from execute_rows_bounded [OF d] assms(1) have "length (fetchall data_cursor) \<le> nat limit"
    by (simp only: nth_limit)
  with r show "length (resp_data r) \<le> nat limit" by simp
  from e show "events = events_of page limit PULocationID sort_by order" .
  from m show "meta_limit (resp_metadata r) = limit" "meta_current_page (resp_metadata r) = page" .
qed

lemma get_trips_total_pages:
  assumes "1 \<le> limit" and "limit \<le> 10000" and "storable db"
    and g: "get_trips db page limit PULocationID sort_by order = (Inr r, events)"
  shows "\<exists>rows. db = Some rows
               \<and> meta_total_records (resp_metadata r)
                   = int (length (matching (PULocationID \<noteq> None) (values_of PULocationID) rows))"
    and "meta_total_pages (resp_metadata r)
              = \<lceil>of_int (meta_total_records (resp_metadata r)) / of_int limit :: rat\<rceil>"
    and "meta_total_pages (resp_metadata r)
              = (if meta_total_records (resp_metadata r) mod limit = 0
                 then meta_total_records (resp_metadata r) div limit
                 else meta_total_records (resp_metadata r) div limit + 1)"
proof -
  from get_trips_result [OF g] obtain rows ratio where
    db: "db = Some rows"
    and t: "truediv (int (length (matching (PULocationID \<noteq> None) (values_of PULocationID) rows))) limit
             = Inr ratio"
    and total: "meta_total_records (resp_metadata r)
                 = int (length (matching (PULocationID \<noteq> None) (values_of PULocationID) rows))"
    and pages: "meta_total_pages (resp_metadata r) = math_ceil ratio"
    by auto
  let ?total = "int (length (matching (PULocationID \<noteq> None) (values_of PULocationID) rows))"
  have "0 \<le> ?total" by simp
  moreover have "?total < 2 ^ 53" using storable_count assms(3) db by simp
  moreover have "limit < 2 ^ 53" using assms(2) by simp
  ultimately have "\<exists>x. truediv ?total limit = Inr x
      \<and> math_ceil x = \<lceil>of_int ?total / of_int limit :: rat\<rceil>"
    using assms(1) by (intro truediv_ceiling)
  with t have "math_ceil ratio = \<lceil>of_int ?total / of_int limit :: rat\<rceil>" by auto
  with pages total show c: "meta_total_pages (resp_metadata r)
            = \<lceil>of_int (meta_total_records (resp_metadata r)) / of_int limit :: rat\<rceil>"
    by simp
  have "0 < limit" using assms(1) by simp
  from c ceiling_quotient [OF this, of "meta_total_records (resp_metadata r)"]
  show "meta_total_pages (resp_metadata r)
              = (if meta_total_records (resp_metadata r) mod limit = 0
                 then meta_total_records (resp_metadata r) div limit
                 else meta_total_records (resp_metadata r) div limit + 1)"
    by simp
  from db total show "\<exists>rows. db = Some rows
               \<and> meta_total_records (resp_metadata r)
                   = int (length (matching (PULocationID \<noteq> None) (values_of PULocationID) rows))"
    by simp
qed

text \<open>
  Claim C3. For \<open>page \<ge> 1\<close> and \<open>limit\<close> in 1..10000: the data query is sent with the
  parameters of the filter followed by \<open>limit\<close> and the offset \<open>(page - 1) * limit\<close>; the
  storage events of the body are a prefix of connect, count query, data query; every
  response the body returns comes with all three events and carries at most \<open>limit\<close>
  rows; and the body does return a response when the table exists, the parameters fit in
  64 bits and the sort parameters are accepted. At the endpoint: every request answered
  with a page has passed validation, has added exactly these three events, with its
  resolved \<open>limit\<close> and offset, to the storage log, and carries at most \<open>limit\<close> rows.
\<close>

theorem offset_and_row_count:
  assumes "1 \<le> page" and "1 \<le> limit" and "limit \<le> 10000"
  shows "last (events_of page limit PULocationID sort_by order)
           = Execute (base_query_of PULocationID sort_by order @ '' LIMIT ? OFFSET ?'')
               (values_of PULocationID @ [limit, (page - 1) * limit])
       \<and> snd (get_trips db page limit PULocationID sort_by order)
           \<in> {[], butlast (events_of page limit PULocationID sort_by order),
               events_of page limit PULocationID sort_by order}
       \<and> (\<forall>r events. get_trips db page limit PULocationID sort_by order = (Inr r, events) \<longrightarrow>
             events = events_of page limit PULocationID sort_by order
             \<and> length (resp_data r) \<le> nat limit)
       \<and> (db \<noteq> None \<and> storable db \<and> sort_accepted sort_by order
           \<and> list_all fits_int64 (values_of PULocationID @ [limit, (page - 1) * limit]) \<longrightarrow>
             (\<exists>r. get_trips db page limit PULocationID sort_by order
                    = (Inr r, events_of page limit PULocationID sort_by order)))
       \<and> (\<forall>r. fst (serve db now app req) = Response 200 (PageBody r) \<longrightarrow>
             (\<exists>ps. resolve_params req = Inr ps
                \<and> db_log (snd (serve db now app req))
                    = db_log app @ events_of (p_page ps) (p_limit ps) (p_PULocationID ps)
                                     (p_sort_by ps) (p_order ps)
                \<and> length (resp_data r) \<le> nat (p_limit ps)))"
proof -
  have "\<exists>r. get_trips db page limit PULocationID sort_by order
                    = (Inr r, events_of page limit PULocationID sort_by order)"
    if "db \<noteq> None" and "storable db" and "sort_accepted sort_by order"
      and "list_all fits_int64 (values_of PULocationID @ [limit, (page - 1) * limit])"
  proof -
    from that(1) obtain rows where "db = Some rows" by auto
    from get_trips_success [OF this that(2) assms(2,3) that(4,3)] show ?thesis by blast
  qed
  moreover have "last (events_of page limit PULocationID sort_by order)
           = Execute (base_query_of PULocationID sort_by order @ '' LIMIT ? OFFSET ?'')
               (values_of PULocationID @ [limit, (page - 1) * limit])"
    by (simp add: events_of_def)
  moreover have "\<exists>ps. resolve_params req = Inr ps
                \<and> db_log (snd (serve db now app req))
                    = db_log app @ events_of (p_page ps) (p_limit ps) (p_PULocationID ps)
                                     (p_sort_by ps) (p_order ps)
                \<and> length (resp_data r) \<le> nat (p_limit ps)"
    if "fst (serve db now app req) = Response 200 (PageBody r)" for r
  proof -
    from serve_page [OF that] obtain ps events where
      ps: "resolve_params req = Inr ps"
      and g: "get_trips db (p_page ps) (p_limit ps) (p_PULocationID ps) (p_sort_by ps) (p_order ps)
               = (Inr r, events)"
      and l: "db_log (snd (serve db now app req)) = db_log app @ events"
      by blast
    from get_trips_rows_bounded(1,2) [OF resolved_values(6) [OF ps] g] ps l show ?thesis by simp
  qed
  ultimately show ?thesis
    using get_trips_events [of db page limit PULocationID sort_by order]
      get_trips_rows_bounded(1,2) [OF assms(2), of db page PULocationID sort_by order]
    by blast
qed

text \<open>
  Claim C2. For \<open>page \<ge> 1\<close> and \<open>limit\<close> in 1..10000, against a file within the
  capacity of the storage engine: in every response the body returns, \<open>total_records\<close> is
  the number of rows the count query matches, and \<open>total_pages\<close>, computed in floating
  point by line 99, is the exact ceiling of \<open>total_records / limit\<close>: the quotient when
  \<open>limit\<close> divides \<open>total_records\<close> (0 for no records), one more otherwise. The body does
  return a response when the table exists, the parameters fit in 64 bits and the sort
  parameters are accepted. At the endpoint: in every request answered with a page,
  \<open>limit\<close> is in 1..10000 and \<open>total_pages\<close> is the ceiling of
  \<open>total_records / limit\<close>.
\<close>

theorem total_pages_is_ceiling:
  assumes "1 \<le> page" and "1 \<le> limit" and "limit \<le> 10000" and "storable db"
  shows "(\<forall>r events. get_trips db page limit PULocationID sort_by order = (Inr r, events) \<longrightarrow>
            (\<exists>rows. db = Some rows
               \<and> meta_total_records (resp_metadata r)
                   = int (length (matching (PULocationID \<noteq> None) (values_of PULocationID) rows)))
          \<and> meta_total_pages (resp_metadata r)
              = \<lceil>of_int (meta_total_records (resp_metadata r)) / of_int limit :: rat\<rceil>
          \<and> meta_total_pages (resp_metadata r)
              = (if meta_total_records (resp_metadata r) mod limit = 0
                 then meta_total_records (resp_metadata r) div limit
                 else meta_total_records (resp_metadata r) div limit + 1))
       \<and> (db \<noteq> None \<and> sort_accepted sort_by order
           \<and> list_all fits_int64 (values_of PULocationID @ [limit, (page - 1) * limit]) \<longrightarrow>
             (\<exists>r events. get_trips db page limit PULocationID sort_by order = (Inr r, events)))
       \<and> (\<forall>r. fst (serve db now app req) = Response 200 (PageBody r) \<longrightarrow>
             1 \<le> meta_limit (resp_metadata r) \<and> meta_limit (resp_metadata r) \<le> 10000
           \<and> meta_total_pages (resp_metadata r)
               = \<lceil>of_int (meta_total_records (resp_metadata r))
                    / of_int (meta_limit (resp_metadata r)) :: rat\<rceil>)"
proof -
  have "\<exists>r events. get_trips db page limit PULocationID sort_by order = (Inr r, events)"
    if "db \<noteq> None" and "sort_accepted sort_by order"
      and "list_all fits_int64 (values_of PULocationID @ [limit, (page - 1) * limit])"
  proof -
    from that(1) obtain rows where "db = Some rows" by auto
    from get_trips_success [OF this assms(4,2,3) that(3,2)] show ?thesis by blast
  qed
  moreover have "1 \<le> meta_limit (resp_metadata r) \<and> meta_limit (resp_metadata r) \<le> 10000
           \<and> meta_total_pages (resp_metadata r)
               = \<lceil>of_int (meta_total_records (resp_metadata r))
                    / of_int (meta_limit (resp_metadata r)) :: rat\<rceil>"
    if "fst (serve db now app req) = Response 200 (PageBody r)" for r
  proof -
    from serve_page [OF that] obtain ps events where
      ps: "resolve_params req = Inr ps"
      and g: "get_trips db (p_page ps) (p_limit ps) (p_PULocationID ps) (p_sort_by ps) (p_order ps)
               = (Inr r, events)"
      by blast
    note b = resolved_values(6,7) [OF ps]
    from get_trips_rows_bounded(3) [OF b(1) g] get_trips_total_pages(2) [OF b assms(4) g] b
    show ?thesis by simp
  qed
  ultimately show ?thesis
    using get_trips_total_pages [OF assms(2,3,4), of page PULocationID sort_by order]
    by blast
qed

text \<open>
  A page past the last record is an empty page, with the metadata, as long as the offset
  can be bound.
\<close>

lemma page_past_the_end_is_empty:
  assumes "db = Some rows" and "storable db" and "1 \<le> limit" and "limit \<le> 10000"
    and "list_all fits_int64 (values_of PULocationID @ [limit, (page - 1) * limit])"
    and "sort_accepted sort_by order"
    and "int (length (matching (PULocationID \<noteq> None) (values_of PULocationID) rows)) \<le> (page - 1) * limit"
  shows "get_trips db page limit PULocationID sort_by order =
     (Inr \<lparr> resp_metadata =
              \<lparr> meta_total_records =
                  int (length (matching (PULocationID \<noteq> None) (values_of PULocationID) rows)),
                meta_total_pages =
                  \<lceil>of_int (int (length (matching (PULocationID \<noteq> None) (values_of PULocationID) rows)))
                     / of_int limit :: rat\<rceil>,
                meta_current_page = page, meta_limit = limit \<rparr>,
            resp_data = [] \<rparr>,
      events_of page limit PULocationID sort_by order)"
proof -
  have "page_of rows page limit PULocationID sort_by order = []"
    unfolding page_of_def using assms(7)
    by (intro limit_offset_past_end) (simp add: length_order_rows)
  with get_trips_success [OF assms(1-6)] show ?thesis by simp
qed

text \<open>
  Claim C10, at the request \<open>GET /trips?page=9223372036854775809&limit=1\<close> against a
  table of five rows: the parameters are accepted, the offset \<open>2^63\<close> is far past the
  last record, the count query runs, and binding the offset of the data query raises
  \<open>OverflowError\<close>; the answer is 500, not an empty page.
\<close>

theorem page_past_the_end_overflows:
  "validation_errors huge_page_request = []
   \<and> get_trips sample_db 9223372036854775809 1 None None ''asc''
       = (Inl (OverflowError ''Python int too large to convert to SQLite INTEGER''),
          [Connect ''tripdata.db'',
           Execute ''SELECT COUNT(*) as total FROM trips'' [],
           Execute ''SELECT * FROM trips LIMIT ? OFFSET ?'' [1, 9223372036854775808]])
   \<and> fst (serve sample_db 0 fresh_app huge_page_request) = Response 500 InternalServerError"
proof -
  have "validation_errors huge_page_request = []"
    by (simp add: huge_page_request_def endpoint_defs)
  moreover have g: "get_trips sample_db 9223372036854775809 1 None None ''asc''
       = (Inl (OverflowError ''Python int too large to convert to SQLite INTEGER''),
          [Connect ''tripdata.db'',
           Execute ''SELECT COUNT(*) as total FROM trips'' [],
           Execute ''SELECT * FROM trips LIMIT ? OFFSET ?'' [1, 9223372036854775808]])"
    by code_simp
  moreover have "fst (serve sample_db 0 fresh_app huge_page_request) = Response 500 InternalServerError"
    by (simp add: serve_def huge_page_request_def endpoint_defs g)
  ultimately show ?thesis by simp
qed

theorem total_pages_is_ceiling_witness:
  "storable sample_db
   \<and> get_trips sample_db 1 2 (Some 138) None ''asc''
       = (Inr \<lparr> resp_metadata = \<lparr> meta_total_records = 3, meta_total_pages = 2,
                                   meta_current_page = 1, meta_limit = 2 \<rparr>,
                resp_data = [sample_trip 138, sample_trip 138] \<rparr>,
          events_of 1 2 (Some 138) None ''asc'')
   \<and> (2::int) = \<lceil>of_int 3 / of_int 2 :: rat\<rceil>"
proof -
  have s: "storable sample_db" by (simp add: storable_def sample_db_def SQLITE_MAX_BYTES_def)
  have g: "get_trips sample_db 1 2 (Some 138) None ''asc''
       = (Inr \<lparr> resp_metadata = \<lparr> meta_total_records = 3, meta_total_pages = 2,
                                   meta_current_page = 1, meta_limit = 2 \<rparr>,
                resp_data = [sample_trip 138, sample_trip 138] \<rparr>,
          events_of 1 2 (Some 138) None ''asc'')"
    by code_simp
  from total_pages_is_ceiling [of 1 2 sample_db "Some 138" None "''asc''" 0 fresh_app plain_request] s g
  show ?thesis by simp
qed

theorem offset_and_row_count_witness:
  "get_trips scenario_db 3 1000 None None ''asc''
       = (Inr \<lparr> resp_metadata = \<lparr> meta_total_records = 2500, meta_total_pages = 3,
                                   meta_current_page = 3, meta_limit = 1000 \<rparr>,
                resp_data = replicate 500 (sample_trip 138) \<rparr>,
          events_of 3 1000 None None ''asc'')
   \<and> last (events_of 3 1000 None None ''asc'')
       = Execute ''SELECT * FROM trips LIMIT ? OFFSET ?'' [1000, 2000]
   \<and> length (replicate 500 (sample_trip 138)) \<le> nat 1000"
proof -
  have s: "storable scenario_db" by (simp add: storable_def scenario_db_def SQLITE_MAX_BYTES_def)
  have a: "sort_accepted None ''asc''" by (simp add: sort_accepted_def)
  have f: "list_all fits_int64 (values_of None @ [1000, (3 - 1) * 1000])"
    by (simp add: values_of_def fits_int64_def)
  have c: "\<lceil>of_int (2500::int) / of_int 1000 :: rat\<rceil> = 3"
    by (subst ceiling_quotient) simp_all
  have g: "get_trips scenario_db 3 1000 None None ''asc''
       = (Inr \<lparr> resp_metadata = \<lparr> meta_total_records = 2500, meta_total_pages = 3,
                                   meta_current_page = 3, meta_limit = 1000 \<rparr>,
                resp_data = replicate 500 (sample_trip 138) \<rparr>,
          events_of 3 1000 None None ''asc'')"
    using get_trips_success [OF scenario_db_def s _ _ f a] c
    by (simp add: page_of_def matching_def limit_offset_def order_rows_def order_by_of_def)
  from offset_and_row_count [of 3 1000 None None "''asc''" scenario_db 0 fresh_app plain_request] g
  show ?thesis by (simp add: base_query_of_def values_of_def conditions_of_def TABLE_NAME_def)
qed

section \<open>The rate limit\<close>

lemma serve_all_Cons:
  "fst (serve_all db app ((now, req) # rest))
     = fst (serve db now app req) # fst (serve_all db (snd (serve db now app req)) rest)"
  "snd (serve_all db app ((now, req) # rest)) = snd (serve_all db (snd (serve db now app req)) rest)"
  by (simp_all split: prod.splits)

lemma serve_all_append_both:
  "fst (serve_all db app (xs @ ys))
     = fst (serve_all db app xs) @ fst (serve_all db (snd (serve_all db app xs)) ys)
   \<and> snd (serve_all db app (xs @ ys)) = snd (serve_all db (snd (serve_all db app xs)) ys)"
proof (induction xs arbitrary: app)
  case Nil
  show ?case by simp
next
  case (Cons x xs)
  obtain now req where x: "x = (now, req)" by (cases x)
  from Cons.IH [of "snd (serve db now app req)"] show ?case
    by (simp only: x append_Cons serve_all_Cons)
qed

lemmas serve_all_append = serve_all_append_both [THEN conjunct1] serve_all_append_both [THEN conjunct2]

lemma get_trips_http_code:
  assumes "fst (get_trips db page limit PULocationID sort_by order) = Inl (HTTPException code detail)"
  shows "code = 400"
  using assms storage_phase_not_http
  by (simp add: get_trips_phases split: if_splits)

lemma hit_fresh:
  "storage_get st key now = None \<Longrightarrow> hit st key now = (True, st(key \<mapsto> (1, now + 60)))"
  by (simp add: hit_def storage_incr_def limit_amount_def limit_expiry_def)

lemma hit_live:
  "storage_get st key now = Some (c, e) \<Longrightarrow> hit st key now = (c + 1 \<le> 100, st(key \<mapsto> (c + 1, e)))"
  by (simp add: hit_def storage_incr_def limit_amount_def limit_expiry_def)

lemma storage_get_live: "st key = Some (c, e) \<Longrightarrow> now < e \<Longrightarrow> storage_get st key now = Some (c, e)"
  by (simp add: storage_get_def)

lemma serve_counted:
  assumes "validation_errors req = []"
  shows "limiter (snd (serve db now app req)) = snd (hit (limiter app) (get_remote_address req) now)"
    and "status_code (fst (serve db now app req)) = 429
           \<longleftrightarrow> \<not> fst (hit (limiter app) (get_remote_address req) now)"
    and "status_code (fst (serve db now app req)) = 429 \<longrightarrow>
           db_log (snd (serve db now app req)) = db_log app
           \<and> content (fst (serve db now app req)) = RateLimitBody ''Rate limit exceeded: 100 per 1 minute''"
proof -
  from assms obtain ps where r: "resolve_params req = Inr ps"
    using resolve_Inr_iff by blast
  have "limiter (snd (serve db now app req)) = snd (hit (limiter app) (get_remote_address req) now)
      \<and> (status_code (fst (serve db now app req)) = 429
           \<longleftrightarrow> \<not> fst (hit (limiter app) (get_remote_address req) now))
      \<and> (status_code (fst (serve db now app req)) = 429 \<longrightarrow>
           db_log (snd (serve db now app req)) = db_log app
           \<and> content (fst (serve db now app req)) = RateLimitBody ''Rate limit exceeded: 100 per 1 minute'')"
  proof (cases "fst (hit (limiter app) (get_remote_address req) now)")
    case False
    with serve_429 [OF r False, of db] show ?thesis by simp
  next
    case True
    obtain result events where
      g: "get_trips db (p_page ps) (p_limit ps) (p_PULocationID ps) (p_sort_by ps) (p_order ps)
            = (result, events)"
      by (cases "get_trips db (p_page ps) (p_limit ps) (p_PULocationID ps) (p_sort_by ps) (p_order ps)")
    have "status_code (fst (serve db now app req)) \<noteq> 429"
    proof (cases result)
      case (Inr resp)
      with serve_body [OF r True g] show ?thesis by simp
    next
      case (Inl e)
      show ?thesis
      proof (cases e)
        case (HTTPException code detail)
        with Inl g get_trips_http_code [of db "p_page ps" "p_limit ps" "p_PULocationID ps" "p_sort_by ps"
            "p_order ps" code detail]
        have "code = 400" by simp
        with Inl HTTPException serve_body [OF r True g] show ?thesis by simp
      qed (use Inl serve_body [OF r True g] in simp_all)
    qed
    with True serve_body [OF r True g] show ?thesis by simp
  qed
  then show "limiter (snd (serve db now app req)) = snd (hit (limiter app) (get_remote_address req) now)"
    and "status_code (fst (serve db now app req)) = 429
           \<longleftrightarrow> \<not> fst (hit (limiter app) (get_remote_address req) now)"
    and "status_code (fst (serve db now app req)) = 429 \<longrightarrow>
           db_log (snd (serve db now app req)) = db_log app
           \<and> content (fst (serve db now app req)) = RateLimitBody ''Rate limit exceeded: 100 per 1 minute''"
    by blast+
qed

lemma live_run:
  assumes "limiter app a = Some (c, e)"
    and "\<forall>(t, req) \<in> set reqs. get_remote_address req = a \<and> validation_errors req = [] \<and> t < e"
  shows "limiter (snd (serve_all db app reqs)) a = Some (c + length reqs, e)
       \<and> length (fst (serve_all db app reqs)) = length reqs
       \<and> (\<forall>i < length reqs.
             (status_code (fst (serve_all db app reqs) ! i) = 429) = (100 \<le> c + i))"
  using assms
proof (induction reqs arbitrary: app c)
  case Nil
  then show ?case by simp
next
  case (Cons x reqs)
  obtain t req where x: "x = (t, req)" by (cases x)
  from Cons.prems(2) x have req: "get_remote_address req = a" "validation_errors req = []" "t < e"
    and rest: "\<forall>(t, req) \<in> set reqs. get_remote_address req = a \<and> validation_errors req = [] \<and> t < e"
    by auto
  let ?app' = "snd (serve db t app req)"
  from storage_get_live [of "limiter app" a c e t, OF Cons.prems(1) req(3)]
  have h: "hit (limiter app) a t = (c + 1 \<le> 100, (limiter app)(a \<mapsto> (c + 1, e)))"
    by (rule hit_live)
  from serve_counted(1) [OF req(2), of db t app] h req(1)
  have l': "limiter ?app' a = Some (c + 1, e)" by simp
  from serve_counted(2) [OF req(2), of db t app] h req(1)
  have s0: "(status_code (fst (serve db t app req)) = 429) = (100 \<le> c)" by auto
  note ih = Cons.IH [OF l' rest]
  have "(status_code (fst (serve_all db app (x # reqs)) ! i) = 429) = (100 \<le> c + i)"
    if "i < length (x # reqs)" for i
  proof (cases i)
    case 0
    with s0 show ?thesis by (simp add: x serve_all_Cons del: serve_all.simps)
  next
    case (Suc j)
    with that have "j < length reqs" by simp
    with ih have "(status_code (fst (serve_all db ?app' reqs) ! j) = 429) = (100 \<le> c + 1 + j)"
      by blast
    with Suc show ?thesis by (simp add: x serve_all_Cons del: serve_all.simps)
  qed
  with ih show ?case by (simp add: x serve_all_Cons del: serve_all.simps)
qed

lemma window_run:
  assumes "storage_get (limiter app) a t0 = None"
    and "get_remote_address req0 = a" and "validation_errors req0 = []"
    and "\<forall>(t, req) \<in> set rest. get_remote_address req = a \<and> validation_errors req = [] \<and> t < t0 + 60"
  shows "limiter (snd (serve_all db app ((t0, req0) # rest))) a = Some (1 + length rest, t0 + 60)
       \<and> length (fst (serve_all db app ((t0, req0) # rest))) = 1 + length rest
       \<and> (\<forall>i < 1 + length rest.
             (status_code (fst (serve_all db app ((t0, req0) # rest)) ! i) = 429) = (100 \<le> i))"
proof -
  let ?app' = "snd (serve db t0 app req0)"
  from assms(1) have h: "hit (limiter app) a t0 = (True, (limiter app)(a \<mapsto> (1, t0 + 60)))"
    by (rule hit_fresh)
  from serve_counted(1) [OF assms(3), of db t0 app] h assms(2)
  have l': "limiter ?app' a = Some (1, t0 + 60)" by simp
  from serve_counted(2) [OF assms(3), of db t0 app] h assms(2)
  have s0: "status_code (fst (serve db t0 app req0)) \<noteq> 429" by simp
  note run = live_run [OF l' assms(4), of db]
  have "(status_code (fst (serve_all db app ((t0, req0) # rest)) ! i) = 429) = (100 \<le> i)"
    if "i < 1 + length rest" for i
  proof (cases i)
    case 0
    with s0 show ?thesis by (simp add: serve_all_Cons del: serve_all.simps)
  next
    case (Suc j)
    with that have "j < length rest" by simp
    with run have "(status_code (fst (serve_all db ?app' rest) ! j) = 429) = (100 \<le> 1 + j)"
      by blast
    with Suc show ?thesis by (simp add: serve_all_Cons del: serve_all.simps)
  qed
  with run show ?thesis by (simp add: serve_all_Cons del: serve_all.simps)
qed

text \<open>Requests of other addresses, and refused ones, leave the counter of an address alone.\<close>

lemma hit_other: "key \<noteq> a \<Longrightarrow> snd (hit st key now) a = st a"
  by (simp add: hit_def storage_incr_def split: option.splits prod.splits)

lemma serve_not_counted:
  assumes "\<not> counted a (t, req)"
  shows "limiter (snd (serve db t app req)) a = limiter app a"
proof (cases "validation_errors req = []")
  case False
  from serve_refused [OF False, of db t app] show ?thesis by simp
next
  case True
  with assms have "get_remote_address req \<noteq> a" by (simp add: counted_def)
  from hit_other [OF this] serve_counted(1) [OF True, of db t app] show ?thesis by simp
qed

lemma live_run_interleaved:
  assumes "limiter app a = Some (c, e)"
    and "\<forall>x \<in> set reqs. counted a x \<longrightarrow> fst x < e"
  shows "limiter (snd (serve_all db app reqs)) a = Some (c + length (filter (counted a) reqs), e)
       \<and> length (fst (serve_all db app reqs)) = length reqs
       \<and> (\<forall>i < length reqs. counted a (reqs ! i) \<longrightarrow>
             (status_code (fst (serve_all db app reqs) ! i) = 429)
               = (100 \<le> c + length (filter (counted a) (take i reqs))))"
  using assms
proof (induction reqs arbitrary: app c)
  case Nil
  then show ?case by simp
next
  case (Cons x reqs)
  obtain t req where x: "x = (t, req)" by (cases x)
  from Cons.prems(2) have rest: "\<forall>x \<in> set reqs. counted a x \<longrightarrow> fst x < e" by simp
  let ?app' = "snd (serve db t app req)"
  show ?case
  proof (cases "counted a x")
    case True
    with x Cons.prems(2) have req: "get_remote_address req = a" "validation_errors req = []" "t < e"
      by (auto simp: counted_def)
    from storage_get_live [of "limiter app" a c e t, OF Cons.prems(1) req(3)]
    have h: "hit (limiter app) a t = (c + 1 \<le> 100, (limiter app)(a \<mapsto> (c + 1, e)))"
      by (rule hit_live)
    from serve_counted(1) [OF req(2), of db t app] h req(1)
    have l': "limiter ?app' a = Some (c + 1, e)" by simp
    from serve_counted(2) [OF req(2), of db t app] h req(1)
    have s0: "(status_code (fst (serve db t app req)) = 429) = (100 \<le> c)" by auto
    note ih = Cons.IH [OF l' rest]
    have "(status_code (fst (serve_all db app (x # reqs)) ! i) = 429)
            = (100 \<le> c + length (filter (counted a) (take i (x # reqs))))"
      if "i < length (x # reqs)" and "counted a ((x # reqs) ! i)" for i
    proof (cases i)
      case 0
      with s0 show ?thesis by (simp add: x serve_all_Cons del: serve_all.simps)
    next
      case (Suc j)
      with that have "j < length reqs" "counted a (reqs ! j)" by simp_all
      with ih have "(status_code (fst (serve_all db ?app' reqs) ! j) = 429)
          = (100 \<le> c + 1 + length (filter (counted a) (take j reqs)))"
        by blast
      with Suc True show ?thesis by (simp add: x serve_all_Cons del: serve_all.simps)
    qed
    with ih True show ?thesis by (simp add: x serve_all_Cons del: serve_all.simps)
  next
    case False
    with x have "\<not> counted a (t, req)" by simp
    from serve_not_counted [OF this, of db app] Cons.prems(1)
    have l': "limiter ?app' a = Some (c, e)" by simp
    note ih = Cons.IH [OF l' rest]
    have "(status_code (fst (serve_all db app (x # reqs)) ! i) = 429)
            = (100 \<le> c + length (filter (counted a) (take i (x # reqs))))"
      if "i < length (x # reqs)" and "counted a ((x # reqs) ! i)" for i
    proof (cases i)
      case 0
      with that False show ?thesis by simp
    next
      case (Suc j)
      with that have "j < length reqs" "counted a (reqs ! j)" by simp_all
      with ih have "(status_code (fst (serve_all db ?app' reqs) ! j) = 429)
          = (100 \<le> c + length (filter (counted a) (take j reqs)))"
        by blast
      with Suc False show ?thesis by (simp add: x serve_all_Cons del: serve_all.simps)
    qed
    with ih False show ?thesis by (simp add: x serve_all_Cons del: serve_all.simps)
  qed
qed

lemma window_run_interleaved:
  assumes "storage_get (limiter app) a t0 = None" and "counted a (t0, req0)"
    and "\<forall>x \<in> set rest. counted a x \<longrightarrow> fst x < t0 + 60"
  shows "\<forall>i < length ((t0, req0) # rest). counted a (((t0, req0) # rest) ! i) \<longrightarrow>
           (status_code (fst (serve_all db app ((t0, req0) # rest)) ! i) = 429)
             = (100 \<le> length (filter (counted a) (take i ((t0, req0) # rest))))"
proof -
  let ?app' = "snd (serve db t0 app req0)"
  from assms(2) have req: "get_remote_address req0 = a" "validation_errors req0 = []"
    by (simp_all add: counted_def)
  from assms(1) have h: "hit (limiter app) a t0 = (True, (limiter app)(a \<mapsto> (1, t0 + 60)))"
    by (rule hit_fresh)
  from serve_counted(1) [OF req(2), of db t0 app] h req(1)
  have l': "limiter ?app' a = Some (1, t0 + 60)" by simp
  from serve_counted(2) [OF req(2), of db t0 app] h req(1)
  have s0: "status_code (fst (serve db t0 app req0)) \<noteq> 429" by simp
  note run = live_run_interleaved [OF l' assms(3), of db]
  show ?thesis
  proof (intro allI impI)
    fix i
    assume i: "i < length ((t0, req0) # rest)" and c: "counted a (((t0, req0) # rest) ! i)"
    show "(status_code (fst (serve_all db app ((t0, req0) # rest)) ! i) = 429)
             = (100 \<le> length (filter (counted a) (take i ((t0, req0) # rest))))"
    proof (cases i)
      case 0
      with s0 show ?thesis by (simp add: serve_all_Cons del: serve_all.simps)
    next
      case (Suc j)
      with i c have "j < length rest" "counted a (rest ! j)" by simp_all
      with run have "(status_code (fst (serve_all db ?app' rest) ! j) = 429)
          = (100 \<le> 1 + length (filter (counted a) (take j rest)))"
        by blast
      with Suc assms(2) show ?thesis by (simp add: serve_all_Cons del: serve_all.simps)
    qed
  qed
qed

text \<open>
  Claim C8, amended. Take any sequence of requests, of any addresses, that starts with
  a counted request of the address \<open>a\<close> at a time \<open>t0\<close> when \<open>a\<close> has no live counter,
  and whose later counted requests of \<open>a\<close> arrive before \<open>t0 + 60\<close>. Then a counted
  request of \<open>a\<close> is answered 429 exactly when 100 counted requests of \<open>a\<close> precede it
  in the sequence: the first 100 are admitted, the 101st and later ones are not. A 429
  answer carries the limiter's message and leaves the storage log as it was: the body
  has not run. A request that fails the framework's validation is answered 422 and the
  state is unchanged: it is not counted.
\<close>

theorem rate_limit_window:
  "(storage_get (limiter app) a t0 = None \<and> counted a (t0, req0)
      \<and> (\<forall>x \<in> set rest. counted a x \<longrightarrow> fst x < t0 + 60)
      \<longrightarrow> (\<forall>i < length ((t0, req0) # rest). counted a (((t0, req0) # rest) ! i) \<longrightarrow>
             (status_code (fst (serve_all db app ((t0, req0) # rest)) ! i) = 429)
               = (100 \<le> length (filter (counted a) (take i ((t0, req0) # rest))))))
   \<and> (status_code (fst (serve db now app req)) = 429 \<longrightarrow>
         db_log (snd (serve db now app req)) = db_log app
         \<and> content (fst (serve db now app req)) = RateLimitBody ''Rate limit exceeded: 100 per 1 minute'')
   \<and> (validation_errors req \<noteq> [] \<longrightarrow>
         serve db now app req = (Response 422 (ValidationBody (validation_errors req)), app))"
proof -
  have "db_log (snd (serve db now app req)) = db_log app
         \<and> content (fst (serve db now app req)) = RateLimitBody ''Rate limit exceeded: 100 per 1 minute''"
    if s: "status_code (fst (serve db now app req)) = 429"
  proof (cases "validation_errors req = []")
    case True
    from serve_counted(3) [OF True, of db now app] s show ?thesis by blast
  next
    case False
    from serve_refused [OF False, of db now app] s show ?thesis by simp
  qed
  moreover have "serve db now app req = (Response 422 (ValidationBody (validation_errors req)), app)"
    if "validation_errors req \<noteq> []"
    using that by (rule serve_refused)
  ultimately show ?thesis
    using window_run_interleaved [of app a t0 req0 rest db] by blast
qed

lemma plain_request_facts:
  "get_remote_address plain_request = ''10.0.0.1''" "validation_errors plain_request = []"
  by (simp_all add: endpoint_defs)

lemma fresh_window:
  assumes "storage_get (limiter app) ''10.0.0.1'' t0 = None" and "t1 < t0 + 60"
  shows "list_all (\<lambda>r. status_code r \<noteq> 429)
           (fst (serve_all db app ((t0, plain_request) # replicate 99 (t1, plain_request))))"
    and "limiter (snd (serve_all db app ((t0, plain_request) # replicate 99 (t1, plain_request))))
           ''10.0.0.1'' = Some (100, t0 + 60)"
proof -
  have rest: "\<forall>(t, req) \<in> set (replicate 99 (t1, plain_request)).
      get_remote_address req = ''10.0.0.1'' \<and> validation_errors req = [] \<and> t < t0 + 60"
    using assms(2) by (simp add: plain_request_facts)
  note run = window_run [OF assms(1) plain_request_facts rest, of db]
  from run show "limiter (snd (serve_all db app ((t0, plain_request) # replicate 99 (t1, plain_request))))
           ''10.0.0.1'' = Some (100, t0 + 60)"
    by (simp del: serve_all.simps)
  from run have len: "length (fst (serve_all db app ((t0, plain_request) # replicate 99 (t1, plain_request)))) = 100"
    by (simp del: serve_all.simps)
  from run have "\<forall>i < 100. status_code
      (fst (serve_all db app ((t0, plain_request) # replicate 99 (t1, plain_request))) ! i) \<noteq> 429"
    by (simp del: serve_all.simps)
  with len show "list_all (\<lambda>r. status_code r \<noteq> 429)
           (fst (serve_all db app ((t0, plain_request) # replicate 99 (t1, plain_request))))"
    by (simp add: list_all_length del: serve_all.simps)
qed

text \<open>
  Claim C8 as stated fails twice. After 100 admitted requests of one address at time 0,
  a well-formed request at time 1 is answered 429, but the request with \<open>limit=0\<close> at
  time 1 is answered 422 with the refused parameter: validation came first. And the
  window is fixed, not rolling: of one request at time 0, 99 at time 59 and 100 at
  time 60, all 200 are admitted, 199 of them within one second.
\<close>

theorem rate_limit_counterexample:
  "list_all (\<lambda>r. status_code r \<noteq> 429)
     (fst (serve_all (Some []) fresh_app ((0, plain_request) # replicate 99 (0, plain_request))))
   \<and> status_code (fst (serve (Some []) 1
        (snd (serve_all (Some []) fresh_app ((0, plain_request) # replicate 99 (0, plain_request))))
        plain_request)) = 429
   \<and> fst (serve (Some []) 1
        (snd (serve_all (Some []) fresh_app ((0, plain_request) # replicate 99 (0, plain_request))))
        (plain_request \<lparr> q_limit := IntText 0 \<rparr>)) = Response 422 (ValidationBody [''limit''])
   \<and> list_all (\<lambda>r. status_code r \<noteq> 429)
       (fst (serve_all (Some []) fresh_app
          (((0, plain_request) # replicate 99 (59, plain_request))
           @ ((60, plain_request) # replicate 99 (60, plain_request)))))"
proof -
  have fresh: "storage_get (limiter fresh_app) ''10.0.0.1'' 0 = None"
    by (simp add: storage_get_def fresh_app_def)
  let ?app = "snd (serve_all (Some []) fresh_app ((0, plain_request) # replicate 99 (0, plain_request)))"
  have lt: "(0::rat) < 0 + 60" "(59::rat) < 0 + 60" "(60::rat) < 60 + 60" by simp_all
  note w = fresh_window [OF fresh lt(1), of "Some []"]
  have l: "limiter ?app ''10.0.0.1'' = Some (100, 60)" using w(2) by simp
  have "storage_get (limiter ?app) ''10.0.0.1'' 1 = Some (100, 60)"
    using l by (simp add: storage_get_def del: serve_all.simps)
  from hit_live [OF this] serve_counted(2) [OF plain_request_facts(2), of "Some []" 1 ?app]
  have over: "status_code (fst (serve (Some []) 1 ?app plain_request)) = 429"
    by (simp add: plain_request_facts del: serve_all.simps)
  have "validation_errors (plain_request \<lparr> q_limit := IntText 0 \<rparr>) = [''limit'']"
    by (simp add: endpoint_defs)
  with serve_refused [of "plain_request \<lparr> q_limit := IntText 0 \<rparr>" "Some []" 1 ?app]
  have bad: "fst (serve (Some []) 1 ?app (plain_request \<lparr> q_limit := IntText 0 \<rparr>))
               = Response 422 (ValidationBody [''limit''])"
    by (simp del: serve_all.simps)
  let ?app1 = "snd (serve_all (Some []) fresh_app ((0, plain_request) # replicate 99 (59, plain_request)))"
  note w1 = fresh_window [OF fresh lt(2), of "Some []"]
  have "limiter ?app1 ''10.0.0.1'' = Some (100, 60)" using w1(2) by simp
  then have "storage_get (limiter ?app1) ''10.0.0.1'' 60 = None"
    by (simp add: storage_get_def del: serve_all.simps)
  note w2 = fresh_window [OF this lt(3), of "Some []"]
  from w1(1) w2(1) have two: "list_all (\<lambda>r. status_code r \<noteq> 429)
       (fst (serve_all (Some []) fresh_app
          (((0, plain_request) # replicate 99 (59, plain_request))
           @ ((60, plain_request) # replicate 99 (60, plain_request)))))"
    unfolding serve_all_append(1) list_all_append by (rule conjI)
  show ?thesis by (rule conjI [OF w(1) conjI [OF over conjI [OF bad two]]])
qed

theorem rate_limit_window_witness:
  "status_code (fst (serve_all (Some []) fresh_app
       ((0, plain_request) # replicate 100 (1, plain_request))) ! 100) = 429
   \<and> status_code (fst (serve_all (Some []) fresh_app
       ((0, plain_request) # replicate 100 (1, plain_request))) ! 99) \<noteq> 429"
proof -
  have fresh: "storage_get (limiter fresh_app) ''10.0.0.1'' 0 = None"
    by (simp add: storage_get_def fresh_app_def)
  have c: "counted ''10.0.0.1'' (t, plain_request)" for t
    by (simp add: counted_def plain_request_facts)
  have rest: "\<forall>x \<in> set (replicate 100 (1 :: rat, plain_request)).
      counted ''10.0.0.1'' x \<longrightarrow> fst x < 0 + 60"
    by simp
  note inst = rate_limit_window [of fresh_app "''10.0.0.1''" 0 plain_request
      "replicate 100 (1, plain_request)" "Some []" 0 plain_request]
  from inst [THEN conjunct1, THEN mp, OF conjI [OF fresh conjI [OF c rest]]]
  have all: "\<forall>i < length ((0 :: rat, plain_request) # replicate 100 (1, plain_request)).
      counted ''10.0.0.1'' (((0, plain_request) # replicate 100 (1, plain_request)) ! i) \<longrightarrow>
          (status_code (fst (serve_all (Some []) fresh_app
             ((0, plain_request) # replicate 100 (1, plain_request))) ! i) = 429)
           = (100 \<le> length (filter (counted ''10.0.0.1'')
                 (take i ((0, plain_request) # replicate 100 (1, plain_request)))))" .
  have "counted ''10.0.0.1'' (((0, plain_request) # replicate 100 (1, plain_request)) ! 100)"
    "counted ''10.0.0.1'' (((0, plain_request) # replicate 100 (1, plain_request)) ! 99)"
    by (simp_all add: c)
  moreover have "length (filter (counted ''10.0.0.1'')
        (take 100 ((0 :: rat, plain_request) # replicate 100 (1, plain_request)))) = 100"
    "length (filter (counted ''10.0.0.1'')
        (take 99 ((0 :: rat, plain_request) # replicate 100 (1, plain_request)))) = 99"
    by (simp_all add: c)
  ultimately show ?thesis using all [rule_format, of 100] all [rule_format, of 99]
    by (simp del: serve_all.simps)
qed

end
